theory Spec2Isabelle
  imports Complex_Main
begin

unbundle bit_operations_syntax

section \<open>Python values, errors and numpy arrays\<close>

text \<open>
  The exceptions \<^verbatim>\<open>weeksched/schedule.py\<close> can raise. An \<^verbatim>\<open>assert\<close> that fails
  raises \<open>AssertionError\<close> with its message; \<open>ValueError\<close> is raised by
  \<^verbatim>\<open>to_vector\<close> and by numpy (reshape, broadcasting, a size beyond the index type);
  \<open>IndexError\<close> by numpy indexing; \<open>TypeError\<close> by \<^verbatim>\<open>len\<close> of an array without
  axes and by \<^verbatim>\<open>&\<close> and \<^verbatim>\<open>~\<close> on an array of floats; \<open>MemoryError\<close> by an
  allocation the machine cannot serve; \<open>UnknownTimeZoneError\<close> by the timezone lookup.
\<close>

datatype error =
    AssertionError string
  | ValueError string
  | IndexError
  | TypeError
  | MemoryError
  | UnknownTimeZoneError

text \<open>
  A numpy array whose cells are of one type: its shape and its cells in row-major
  order (the arrays the module creates are stored that way, and a caller's array is
  taken to be, so that \<^verbatim>\<open>reshape\<close> gives a view). The cells of an array of dtype
  bool are of type \<open>bool\<close>, those of a signed integer dtype of type \<open>int\<close> (neither
  \<^verbatim>\<open>~\<close> nor \<^verbatim>\<open>&\<close> leaves the range of the dtype), those of a float dtype, as far
  as they are finite, of type \<open>rat\<close>.
\<close>

record 'a ndarray =
  shape :: "nat list"
  cells :: "'a list"

text \<open>
  What numpy does with the cells of a dtype: the value a bool is stored as when it is
  assigned into or concatenated with an array of the dtype, the truth value of a cell
  (a number is true when it is not 0), and \<^verbatim>\<open>x & y\<close>, which exists for bools and
  integers and not for floats.
\<close>

record 'a dtype =
  from_bool :: "bool \<Rightarrow> 'a"
  truth :: "'a \<Rightarrow> bool"
  bit_and :: "('a \<Rightarrow> 'a \<Rightarrow> 'a) option"

definition bool_dtype :: "bool dtype" where
  "bool_dtype = \<lparr>from_bool = (\<lambda>b. b), truth = (\<lambda>b. b), bit_and = Some (\<and>)\<rparr>"

definition int_dtype :: "int dtype" where
  "int_dtype = \<lparr>from_bool = of_bool, truth = (\<lambda>x. x \<noteq> 0), bit_and = Some (AND)\<rparr>"

definition float_dtype :: "rat dtype" where
  "float_dtype = \<lparr>from_bool = of_bool, truth = (\<lambda>x. x \<noteq> 0), bit_and = None\<rparr>"

text \<open>
  \<^verbatim>\<open>np.zeros(sh, dtype=bool)\<close> and \<^verbatim>\<open>np.ones(sh, dtype=bool)\<close> for the fixed shapes
  the module creates.
\<close>

definition np_zeros :: "nat list \<Rightarrow> bool ndarray" where
  "np_zeros sh = \<lparr>shape = sh, cells = replicate (prod_list sh) False\<rparr>"

definition np_ones :: "nat list \<Rightarrow> bool ndarray" where
  "np_ones sh = \<lparr>shape = sh, cells = replicate (prod_list sh) True\<rparr>"

text \<open>
  \<^verbatim>\<open>np.zeros(n, dtype=bool)\<close> for a size \<open>n\<close> the caller chooses. A size of \<open>2 ^ 63\<close>
  or more does not fit the index type and raises \<open>ValueError\<close>; below that the
  allocation succeeds when the machine has the memory. The parameter \<open>memory\<close> is the
  largest \<open>n\<close> for which the machine allocates these zeros and their concatenation
  with the cells of a day.
\<close>

definition np_zeros_sized :: "nat \<Rightarrow> nat \<Rightarrow> error + bool list" where
  "np_zeros_sized memory n =
     (if n \<ge> 2 ^ 63 then Inl (ValueError ''Maximum allowed dimension exceeded'')
      else if n > memory then Inl MemoryError
      else Inr (replicate n False))"

definition np_all :: "'a dtype \<Rightarrow> 'a ndarray \<Rightarrow> bool" where
  "np_all dt a = list_all (truth dt) (cells a)"

definition np_any :: "'a dtype \<Rightarrow> 'a ndarray \<Rightarrow> bool" where
  "np_any dt a = list_ex (truth dt) (cells a)"

text \<open>\<^verbatim>\<open>a.astype(dtype)\<close> of an array of bools, as an assignment casts its value.\<close>

definition astype :: "'a dtype \<Rightarrow> bool ndarray \<Rightarrow> 'a ndarray" where
  "astype dt v = \<lparr>shape = shape v, cells = map (from_bool dt) (cells v)\<rparr>"

definition np_reshape :: "'a ndarray \<Rightarrow> nat list \<Rightarrow> error + 'a ndarray" where
  "np_reshape a sh =
     (if prod_list sh = length (cells a) then Inr \<lparr>shape = sh, cells = cells a\<rparr>
      else Inl (ValueError ''cannot reshape array''))"

text \<open>
  \<^verbatim>\<open>a[i]\<close> on the first axis; a negative index counts from the end, an index out of
  range raises.
\<close>

definition axis_index :: "nat \<Rightarrow> int \<Rightarrow> error + nat" where
  "axis_index n i =
     (let j = (if i < 0 then i + int n else i)
      in if 0 \<le> j \<and> j < int n then Inr (nat j) else Inl IndexError)"

definition getitem :: "'a ndarray \<Rightarrow> int \<Rightarrow> error + 'a ndarray" where
  "getitem a i =
     (case shape a of
        [] \<Rightarrow> Inl IndexError
      | n # sh \<Rightarrow>
          (case axis_index n i of
             Inl e \<Rightarrow> Inl e
           | Inr j \<Rightarrow>
               Inr \<lparr>shape = sh,
                    cells = take (prod_list sh) (drop (j * prod_list sh) (cells a))\<rparr>))"

text \<open>
  \<^verbatim>\<open>a[i] = v\<close> for a value already cast to the dtype of \<open>a\<close>. Every such assignment
  of the module has a value of exactly the shape of \<^verbatim>\<open>a[i]\<close> on a grid that passed
  \<^verbatim>\<open>_validate\<close>; numpy's broadcasting of a value of another shape is not modelled, a
  value of another shape raises.
\<close>

definition setitem :: "'a ndarray \<Rightarrow> int \<Rightarrow> 'a ndarray \<Rightarrow> error + 'a ndarray" where
  "setitem a i v =
     (case shape a of
        [] \<Rightarrow> Inl IndexError
      | n # sh \<Rightarrow>
          (case axis_index n i of
             Inl e \<Rightarrow> Inl e
           | Inr j \<Rightarrow>
               if shape v = sh then
                 Inr (a\<lparr>cells := take (j * prod_list sh) (cells a) @ cells v
                        @ drop (Suc j * prod_list sh) (cells a)\<rparr>)
               else Inl (ValueError ''could not broadcast input array'')))"

text \<open>
  The array a schedule holds. The module creates arrays of dtype bool only, but
  \<^verbatim>\<open>from_raw\<close> keeps the array a caller passes, whatever its dtype: bools, integers
  or floats here. (Arrays of other dtypes, and floats that are infinite or not a
  number, are not modelled.)
\<close>

datatype np_array =
    BoolArray "bool ndarray"
  | IntArray "int ndarray"
  | FloatArray "rat ndarray"

fun np_shape :: "np_array \<Rightarrow> nat list" where
  "np_shape (BoolArray a) = shape a"
| "np_shape (IntArray a) = shape a"
| "np_shape (FloatArray a) = shape a"

text \<open>
  The cells as numbers, as a comparison with 0 or 1 reads them: \<open>False\<close> is 0 and
  \<open>True\<close> is 1.
\<close>

fun np_values :: "np_array \<Rightarrow> rat list" where
  "np_values (BoolArray a) = map of_bool (cells a)"
| "np_values (IntArray a) = map of_int (cells a)"
| "np_values (FloatArray a) = cells a"

text \<open>A cell read out of an array: a numpy scalar of the array's dtype.\<close>

datatype scalar = BoolScalar bool | IntScalar int | FloatScalar rat

fun item_at :: "np_array \<Rightarrow> nat \<Rightarrow> scalar" where
  "item_at (BoolArray a) i = BoolScalar (cells a ! i)"
| "item_at (IntArray a) i = IntScalar (cells a ! i)"
| "item_at (FloatArray a) i = FloatScalar (cells a ! i)"

text \<open>\<^verbatim>\<open>a[i] = v\<close> for an array \<open>v\<close> of bools, which is cast to the dtype of \<open>a\<close>.\<close>

fun np_setitem :: "np_array \<Rightarrow> int \<Rightarrow> bool ndarray \<Rightarrow> error + np_array" where
  "np_setitem (BoolArray a) i v = map_sum (\<lambda>e. e) BoolArray (setitem a i (astype bool_dtype v))"
| "np_setitem (IntArray a) i v = map_sum (\<lambda>e. e) IntArray (setitem a i (astype int_dtype v))"
| "np_setitem (FloatArray a) i v = map_sum (\<lambda>e. e) FloatArray (setitem a i (astype float_dtype v))"

text \<open>
  \<^verbatim>\<open>~a\<close>: the logical negation of bools, the bitwise complement of integers (\<open>-x - 1\<close>),
  and no operation of floats.
\<close>

fun np_invert :: "np_array \<Rightarrow> error + np_array" where
  "np_invert (BoolArray a) = Inr (BoolArray (a\<lparr>cells := map Not (cells a)\<rparr>))"
| "np_invert (IntArray a) = Inr (IntArray (a\<lparr>cells := map NOT (cells a)\<rparr>))"
| "np_invert (FloatArray a) = Inl TypeError"

section \<open>Compact day schedules\<close>

text \<open>
  A time is a tuple \<^verbatim>\<open>(hour, minute)\<close> of Python integers. A day schedule is either
  one slot \<^verbatim>\<open>(start, end)\<close> or a tuple of slots; the raw schedule is a dict from
  day numbers to day schedules, kept here in the order of \<^verbatim>\<open>dict.items()\<close>.
\<close>

type_synonym time = "int \<times> int"

datatype day_sched =
    Single time time
  | Multi "(time \<times> time) list"

type_synonym raw_dict = "(int \<times> day_sched) list"

text \<open>Python compares tuples lexicographically.\<close>

fun tuple_le :: "time \<Rightarrow> time \<Rightarrow> bool" where
  "tuple_le (a, b) (c, d) = (a < c \<or> (a = c \<and> b \<le> d))"

fun tuple_lt :: "time \<Rightarrow> time \<Rightarrow> bool" where
  "tuple_lt (a, b) (c, d) = (a < c \<or> (a = c \<and> b < d))"

text \<open>
  \<^verbatim>\<open>slots[start:stop] = 1\<close>: a slice bound below zero counts from the end, and
  bounds are clipped to the array; an empty slice assigns nothing.
\<close>

definition slice_bound :: "nat \<Rightarrow> int \<Rightarrow> nat" where
  "slice_bound n i = (if i < 0 then nat (max 0 (i + int n)) else min (nat i) n)"

definition slice_fill :: "bool list \<Rightarrow> int \<Rightarrow> int \<Rightarrow> bool list" where
  "slice_fill slots start stop =
     map (\<lambda>i. (slice_bound (length slots) start \<le> i \<and> i < slice_bound (length slots) stop)
              \<or> slots ! i)
       [0..<length slots]"

definition define_slot :: "bool list \<Rightarrow> time \<Rightarrow> time \<Rightarrow> error + bool list" where
  "define_slot slots s e =
     (if \<not> (tuple_le (0, 0) s \<and> tuple_le s (24, 0)) then
        Inl (AssertionError ''start time should be 00:00 <= x <= 24:00'')
      else if \<not> (tuple_le (0, 0) e \<and> tuple_le e (24, 0)) then
        Inl (AssertionError ''end time should be 00:00 <= x <= 24:00'')
      else if \<not> tuple_lt s e then
        Inl (AssertionError ''start time should be before end time'')
      else Inr (slice_fill slots (fst s * 60 + snd s) (fst e * 60 + snd e)))"

fun define_slots :: "bool list \<Rightarrow> (time \<times> time) list \<Rightarrow> error + bool list" where
  "define_slots slots [] = Inr slots"
| "define_slots slots ((s, e) # rest) =
     (case define_slot slots s e of
        Inl err \<Rightarrow> Inl err
      | Inr slots' \<Rightarrow> define_slots slots' rest)"

text \<open>
  \<^verbatim>\<open>np.array(day_sched).ndim\<close>: 2 for one slot, 3 for a non-empty tuple of slots,
  1 for the empty tuple.
\<close>

fun ndim :: "day_sched \<Rightarrow> nat" where
  "ndim (Single s e) = 2"
| "ndim (Multi []) = 1"
| "ndim (Multi (iv # ivs)) = 3"

definition to_vector :: "day_sched \<Rightarrow> error + bool list" where
  "to_vector day_sched =
     (let slots = replicate (24 * 60) False in
      case day_sched of
        Single start end \<Rightarrow> define_slot slots start end
      | Multi ivs \<Rightarrow>
          if ndim day_sched = 3 then define_slots slots ivs
          else Inl (ValueError ''Invalid day schedule format. Expected 2D or 3D tuple. Got 1D.''))"

text \<open>
  \<^verbatim>\<open>to_vector(...).reshape(24, 60)\<close>: the vector \<^verbatim>\<open>to_vector\<close> returns always has
  \<open>24 * 60\<close> cells, so the reshape only changes the shape.
\<close>

definition reshape_24_60 :: "bool list \<Rightarrow> bool ndarray" where
  "reshape_24_60 v = \<lparr>shape = [24, 60], cells = v\<rparr>"

fun to_matrix_items :: "bool ndarray \<Rightarrow> raw_dict \<Rightarrow> error + bool ndarray" where
  "to_matrix_items slots [] = Inr slots"
| "to_matrix_items slots ((day, day_sched) # rest) =
     (if \<not> (0 \<le> day \<and> day < 7) then Inl (AssertionError ''day should be in range 0-6'')
      else case to_vector day_sched of
        Inl e \<Rightarrow> Inl e
      | Inr v \<Rightarrow>
          (case setitem slots day (reshape_24_60 v) of
             Inl e \<Rightarrow> Inl e
           | Inr slots' \<Rightarrow> to_matrix_items slots' rest))"

definition to_matrix :: "raw_dict \<Rightarrow> error + bool ndarray" where
  "to_matrix ctrl_sched = to_matrix_items (np_zeros [7, 24, 60]) ctrl_sched"

section \<open>Decoding a grid\<close>

text \<open>
  \<^verbatim>\<open>np.roll(flat_slots, 1)\<close> moves every cell one place to the right, the last one
  to the front.
\<close>

definition np_roll1 :: "'a list \<Rightarrow> 'a list" where
  "np_roll1 xs = (if xs = [] then [] else last xs # butlast xs)"

text \<open>
  The loop over \<^verbatim>\<open>np.ndenumerate(slot_indexes)\<close>: an index at an even position is a
  start, at an odd position an end; a slot is appended once both are set. A non-empty
  tuple is true in Python, so \<^verbatim>\<open>start and end\<close> holds as soon as neither is None.
\<close>

fun group_slots ::
  "nat \<Rightarrow> time option \<Rightarrow> time option \<Rightarrow> nat list \<Rightarrow> (time \<times> time) list" where
  "group_slots idx start end [] = []"
| "group_slots idx start end (slot_index # rest) =
     (let t = (int (slot_index div 60), int (slot_index mod 60));
          start' = (if idx mod 2 = 0 then Some t else start);
          end' = (if idx mod 2 = 0 then end else Some t)
      in case (start', end') of
           (Some s, Some e) \<Rightarrow> (s, e) # group_slots (Suc idx) None None rest
         | _ \<Rightarrow> group_slots (Suc idx) start' end' rest)"

definition slot_indexes :: "'a dtype \<Rightarrow> 'a list \<Rightarrow> nat list" where
  "slot_indexes dt flat_slots =
     (let rolled_slots = (np_roll1 flat_slots)[0 := flat_slots ! 0];
          changes = filter (\<lambda>i. rolled_slots ! i \<noteq> flat_slots ! i) [0..<length flat_slots];
          with_start = (if truth dt (flat_slots ! 0) then 0 # changes else changes)
      in if truth dt (last flat_slots) then with_start @ [24 * 60] else with_start)"

text \<open>
  One day of \<^verbatim>\<open>format_schedule\<close>: \<open>None\<close> when the day gets no key. A list of
  exactly one slot is unwrapped before \<^verbatim>\<open>tuple(day_slots)\<close>.
\<close>

definition format_day :: "'a dtype \<Rightarrow> 'a ndarray \<Rightarrow> error + day_sched option" where
  "format_day dt day_schedule =
     (if np_all dt day_schedule then Inr (Some (Single (0, 0) (24, 0)))
      else if \<not> np_any dt day_schedule then Inr None
      else case np_reshape day_schedule [24 * 60] of
        Inl e \<Rightarrow> Inl e
      | Inr flat \<Rightarrow>
          (let day_slots = group_slots 0 None None (slot_indexes dt (cells flat))
           in case day_slots of
                [(s, e)] \<Rightarrow> Inr (Some (Single s e))
              | _ \<Rightarrow> Inr (Some (Multi day_slots))))"

fun format_days :: "'a dtype \<Rightarrow> 'a ndarray \<Rightarrow> nat list \<Rightarrow> error + raw_dict" where
  "format_days dt sched [] = Inr []"
| "format_days dt sched (day # rest) =
     (case getitem sched (int day) of
        Inl e \<Rightarrow> Inl e
      | Inr day_schedule \<Rightarrow>
          (case format_day dt day_schedule of
             Inl e \<Rightarrow> Inl e
           | Inr r \<Rightarrow>
               (case format_days dt sched rest of
                  Inl e \<Rightarrow> Inl e
                | Inr formatted \<Rightarrow>
                    Inr (case r of None \<Rightarrow> formatted | Some s \<Rightarrow> (int day, s) # formatted))))"

definition format_grid :: "'a dtype \<Rightarrow> 'a ndarray \<Rightarrow> error + raw_dict" where
  "format_grid dt sched =
     (if np_all dt sched then Inr (map (\<lambda>day. (int day, Single (0, 0) (24, 0))) [0..<7])
      else if \<not> np_any dt sched then Inr []
      else format_days dt sched [0..<7])"

section \<open>Dates, timezones and the schedule object\<close>

text \<open>
  A \<^verbatim>\<open>datetime\<close>: its date as the proleptic Gregorian ordinal
  (\<^verbatim>\<open>date.toordinal()\<close>, day 1 is Monday 0001-01-01), its wall-clock fields, and its
  offset from UTC in minutes (\<open>None\<close> for a naive datetime).
  \<^verbatim>\<open>weekday()\<close> is \<^verbatim>\<open>(toordinal() + 6) % 7\<close>, Monday being 0.
\<close>

record datetime =
  ordinal :: int
  hour :: nat
  minute :: nat
  second :: nat
  utcoffset :: "int option"

definition weekday :: "datetime \<Rightarrow> int" where
  "weekday dt = (ordinal dt + 6) mod 7"

definition valid_datetime :: "datetime \<Rightarrow> bool" where
  "valid_datetime dt = (1 \<le> ordinal dt \<and> hour dt < 24 \<and> minute dt < 60 \<and> second dt < 60)"

text \<open>What a caller can pass where a \<^verbatim>\<open>datetime\<close> is expected.\<close>

datatype pyarg = PyNone | PyDatetime datetime | PyOther

text \<open>
  The timezone database is an external library. A resolved timezone gives the offset
  from UTC, in minutes, at an instant (minutes since the start of day 0); the database
  \<open>tzdb\<close> maps a name to its timezone and is a parameter of every function that
  resolves one. \<^verbatim>\<open>pytz.timezone(None)\<close> raises like an unknown name.
\<close>

type_synonym tzinfo = "int \<Rightarrow> int"

type_synonym tzdb = "string \<Rightarrow> tzinfo option"

definition pytz_timezone :: "tzdb \<Rightarrow> string option \<Rightarrow> error + tzinfo" where
  "pytz_timezone db zone =
     (case zone of
        None \<Rightarrow> Inl UnknownTimeZoneError
      | Some name \<Rightarrow>
          (case db name of None \<Rightarrow> Inl UnknownTimeZoneError | Some tz \<Rightarrow> Inr tz))"

record WeeklySchedule =
  schedule :: np_array
  timezone :: "string option"
  pytz :: "tzinfo option"
  is_working_day_fun :: "(datetime \<Rightarrow> bool) option"

text \<open>
  A method that mutates \<^verbatim>\<open>self\<close> returns the object as the call leaves it,
  together with the exception it raised, if any. A static constructor returns the new
  object or the exception.
\<close>

type_synonym outcome = "WeeklySchedule \<times> error option"

definition returning :: "outcome \<Rightarrow> error + WeeklySchedule" where
  "returning r = (case r of (self, None) \<Rightarrow> Inr self | (self, Some e) \<Rightarrow> Inl e)"

definition init :: WeeklySchedule where
  "init = \<lparr>schedule = BoolArray (np_zeros [7, 24, 60]), timezone = None, pytz = None,
            is_working_day_fun = None\<rparr>"

definition format_schedule :: "WeeklySchedule \<Rightarrow> error + raw_dict" where
  "format_schedule self =
     (case schedule self of
        BoolArray a \<Rightarrow> format_grid bool_dtype a
      | IntArray a \<Rightarrow> format_grid int_dtype a
      | FloatArray a \<Rightarrow> format_grid float_dtype a)"

definition for_timezone :: "tzdb \<Rightarrow> WeeklySchedule \<Rightarrow> string option \<Rightarrow> outcome" where
  "for_timezone db self tz =
     (let self1 = self\<lparr>timezone := tz\<rparr>
      in case pytz_timezone db tz of
           Inl e \<Rightarrow> (self1, Some e)
         | Inr z \<Rightarrow> (self1\<lparr>pytz := Some z\<rparr>, None))"

text \<open>
  The argument of \<^verbatim>\<open>with_working_days_calendar\<close>: a callable, or a calendar object
  whose \<^verbatim>\<open>is_working_day\<close> method is taken.
\<close>

datatype calendar = Callable "datetime \<Rightarrow> bool" | Calendar "datetime \<Rightarrow> bool"

fun with_working_days_calendar :: "WeeklySchedule \<Rightarrow> calendar \<Rightarrow> outcome" where
  "with_working_days_calendar self (Callable f) = (self\<lparr>is_working_day_fun := Some f\<rparr>, None)"
| "with_working_days_calendar self (Calendar is_working_day) =
     (self\<lparr>is_working_day_fun := Some is_working_day\<rparr>, None)"

text \<open>
  \<^verbatim>\<open>_validate\<close>. \<^verbatim>\<open>len\<close> of an array is the size of its first axis and raises
  on an array without axes. The two comparisons read each cell as a number, whatever
  the dtype.
\<close>

definition validate :: "WeeklySchedule \<Rightarrow> error option" where
  "validate self =
     (case np_shape (schedule self) of
        [] \<Rightarrow> Some TypeError
      | n # sh \<Rightarrow>
          if \<not> n > 0 then Some (AssertionError ''weekly schedule can't be empty'')
          else if np_shape (schedule self) \<noteq> [7, 24, 60] then
            Some (AssertionError ''weekly schedule should be a 7x24x60 matrix'')
          else if \<not> list_all (\<lambda>x. x \<ge> 0) (np_values (schedule self)) then
            Some (AssertionError ''weekly schedule should have positive values'')
          else if \<not> list_all (\<lambda>x. x \<le> 1) (np_values (schedule self)) then
            Some (AssertionError ''weekly schedule should have values <= 1'')
          else None)"

datatype raw_sched = RawDict raw_dict | RawArray np_array

definition from_raw :: "tzdb \<Rightarrow> raw_sched \<Rightarrow> string \<Rightarrow> error + WeeklySchedule" where
  "from_raw db raw_sched time_zone =
     (case (case raw_sched of
              RawDict d \<Rightarrow>
                if d = [] then Inl (AssertionError ''raw schedule can't be empty'')
                else map_sum (\<lambda>e. e) BoolArray (to_matrix d)
            | RawArray a \<Rightarrow> Inr a) of
        Inl e \<Rightarrow> Inl e
      | Inr m \<Rightarrow>
          (case for_timezone db (init\<lparr>schedule := m\<rparr>) (Some time_zone) of
             (sched, Some e) \<Rightarrow> Inl e
           | (sched, None) \<Rightarrow>
               (case validate sched of Some e \<Rightarrow> Inl e | None \<Rightarrow> Inr sched)))"

definition never :: "tzdb \<Rightarrow> error + WeeklySchedule" where
  "never db = returning (for_timezone db init (Some ''UTC''))"

definition always :: "tzdb \<Rightarrow> error + WeeklySchedule" where
  "always db =
     (case from_raw db (RawArray (BoolArray (np_ones [7, 24, 60]))) ''UTC'' of
        Inl e \<Rightarrow> Inl e
      | Inr sched \<Rightarrow> returning (for_timezone db sched (Some ''UTC'')))"

definition invert :: "tzdb \<Rightarrow> WeeklySchedule \<Rightarrow> error + WeeklySchedule" where
  "invert db other =
     (case np_invert (schedule other) of
        Inl e \<Rightarrow> Inl e
      | Inr inverted \<Rightarrow>
          (case from_raw db (RawArray inverted) ''UTC'' of
             Inl e \<Rightarrow> Inl e
           | Inr sched \<Rightarrow> returning (for_timezone db sched (timezone other))))"

definition set_day_schedule :: "WeeklySchedule \<Rightarrow> int \<Rightarrow> day_sched \<Rightarrow> outcome" where
  "set_day_schedule self day sched =
     (case to_vector sched of
        Inl e \<Rightarrow> (self, Some e)
      | Inr v \<Rightarrow>
          (case np_setitem (schedule self) day (reshape_24_60 v) of
             Inl e \<Rightarrow> (self, Some e)
           | Inr g \<Rightarrow> (self\<lparr>schedule := g\<rparr>, validate (self\<lparr>schedule := g\<rparr>))))"

datatype Day = Monday | Tuesday | Wednesday | Thursday | Friday | Saturday | Sunday

fun day_value :: "Day \<Rightarrow> nat" where
  "day_value Monday = 0"
| "day_value Tuesday = 1"
| "day_value Wednesday = 2"
| "day_value Thursday = 3"
| "day_value Friday = 4"
| "day_value Saturday = 5"
| "day_value Sunday = 6"

fun set_days :: "WeeklySchedule \<Rightarrow> nat list \<Rightarrow> day_sched \<Rightarrow> error + WeeklySchedule" where
  "set_days sched [] day_sched = Inr sched"
| "set_days sched (day # rest) day_sched =
     (case set_day_schedule sched (int day) day_sched of
        (sched', Some e) \<Rightarrow> Inl e
      | (sched', None) \<Rightarrow> set_days sched' rest day_sched)"

definition from_to :: "Day \<Rightarrow> Day \<Rightarrow> day_sched \<Rightarrow> error + WeeklySchedule" where
  "from_to day_start day_end day_sched =
     set_days init [day_value day_start..<day_value day_end + 1] day_sched"

definition monday :: "WeeklySchedule \<Rightarrow> day_sched \<Rightarrow> outcome" where
  "monday self day_sched = set_day_schedule self 0 day_sched"

definition tuesday :: "WeeklySchedule \<Rightarrow> day_sched \<Rightarrow> outcome" where
  "tuesday self day_sched = set_day_schedule self 1 day_sched"

definition wednesday :: "WeeklySchedule \<Rightarrow> day_sched \<Rightarrow> outcome" where
  "wednesday self day_sched = set_day_schedule self 2 day_sched"

definition thursday :: "WeeklySchedule \<Rightarrow> day_sched \<Rightarrow> outcome" where
  "thursday self day_sched = set_day_schedule self 3 day_sched"

definition friday :: "WeeklySchedule \<Rightarrow> day_sched \<Rightarrow> outcome" where
  "friday self day_sched = set_day_schedule self 4 day_sched"

definition saturday :: "WeeklySchedule \<Rightarrow> day_sched \<Rightarrow> outcome" where
  "saturday self day_sched = set_day_schedule self 5 day_sched"

definition sunday :: "WeeklySchedule \<Rightarrow> day_sched \<Rightarrow> outcome" where
  "sunday self day_sched = set_day_schedule self 6 day_sched"

subsection \<open>Shifting the start of every slot\<close>

text \<open>
  \<^verbatim>\<open>a & b\<close> on one-dimensional arrays of one dtype. A dtype without the operation
  raises \<open>TypeError\<close> before the shapes are looked at. Otherwise the arrays are
  combined cell by cell when the lengths agree, an array of one cell is broadcast, and
  any other pair of lengths raises.
\<close>

definition np_and :: "'a dtype \<Rightarrow> 'a list \<Rightarrow> 'a list \<Rightarrow> error + 'a list" where
  "np_and dt xs ys =
     (case bit_and dt of
        None \<Rightarrow> Inl TypeError
      | Some f \<Rightarrow>
          if length xs = length ys then Inr (map2 f xs ys)
          else if length ys = 1 then Inr (map (\<lambda>x. f x (hd ys)) xs)
          else if length xs = 1 then Inr (map (\<lambda>y. f (hd xs) y) ys)
          else Inl (ValueError ''operands could not be broadcast together''))"

text \<open>
  The body of the loop over the days, on the view \<^verbatim>\<open>day_schedules\<close> of shape
  \<open>(7, 1440)\<close>. The zeros are allocated first; concatenated with the day they take
  the day's dtype. \<^verbatim>\<open>shifted_slots[:-total_minutes_shift]\<close> is the slice that stops
  at \<open>-total_minutes_shift\<close>: for a shift of 0 that bound is 0.
\<close>

fun shift_days ::
  "nat \<Rightarrow> 'a dtype \<Rightarrow> nat \<Rightarrow> 'a ndarray \<Rightarrow> nat list \<Rightarrow> 'a ndarray \<times> error option" where
  "shift_days memory dt total_shift day_schedules [] = (day_schedules, None)"
| "shift_days memory dt total_shift day_schedules (day # rest) =
     (case np_zeros_sized memory total_shift of
        Inl e \<Rightarrow> (day_schedules, Some e)
      | Inr zeros \<Rightarrow>
          (case getitem day_schedules (int day) of
             Inl e \<Rightarrow> (day_schedules, Some e)
           | Inr row \<Rightarrow>
               (let concatenated = map (from_bool dt) zeros @ cells row;
                    shifted_slots =
                      take (slice_bound (length concatenated) (- int total_shift)) concatenated
                in case np_and dt (cells row) shifted_slots of
                     Inl e \<Rightarrow> (day_schedules, Some e)
                   | Inr masked \<Rightarrow>
                       (case setitem day_schedules (int day)
                               \<lparr>shape = [length masked], cells = masked\<rparr> of
                          Inl e \<Rightarrow> (day_schedules, Some e)
                        | Inr day_schedules' \<Rightarrow>
                            shift_days memory dt total_shift day_schedules' rest))))"

text \<open>
  The reshape, the loop and the reshape back, on an array of one dtype: the array as
  the statements leave it, and the exception one of them raised, if any.
  \<^verbatim>\<open>day_schedules\<close> is a view of \<^verbatim>\<open>self._schedule\<close>: what the loop wrote before an
  exception stays written in the grid.
\<close>

definition shift_grid ::
  "nat \<Rightarrow> 'a dtype \<Rightarrow> nat \<Rightarrow> 'a ndarray \<Rightarrow> 'a ndarray \<times> error option" where
  "shift_grid memory dt total_shift sched =
     (case np_reshape sched [7, 24 * 60] of
        Inl e \<Rightarrow> (sched, Some e)
      | Inr day_schedules \<Rightarrow>
          (case shift_days memory dt total_shift day_schedules [0..<7] of
             (written, Some e) \<Rightarrow> (sched\<lparr>cells := cells written\<rparr>, Some e)
           | (written, None) \<Rightarrow>
               (case np_reshape written [7, 24, 60] of
                  Inl e \<Rightarrow> (sched\<lparr>cells := cells written\<rparr>, Some e)
                | Inr g \<Rightarrow> (g, None))))"

definition shift_start :: "nat \<Rightarrow> WeeklySchedule \<Rightarrow> int \<Rightarrow> int \<Rightarrow> outcome" where
  "shift_start memory self hours minutes =
     (let total_minutes_shift = hours * 60 + minutes
      in if \<not> total_minutes_shift \<ge> 0 then
           (self, Some (AssertionError
              ''start should be postponed by a positive number of minutes''))
         else case (case schedule self of
                      BoolArray a \<Rightarrow>
                        map_prod BoolArray (\<lambda>r. r)
                          (shift_grid memory bool_dtype (nat total_minutes_shift) a)
                    | IntArray a \<Rightarrow>
                        map_prod IntArray (\<lambda>r. r)
                          (shift_grid memory int_dtype (nat total_minutes_shift) a)
                    | FloatArray a \<Rightarrow>
                        map_prod FloatArray (\<lambda>r. r)
                          (shift_grid memory float_dtype (nat total_minutes_shift) a)) of
           (g, Some e) \<Rightarrow> (self\<lparr>schedule := g\<rparr>, Some e)
         | (g, None) \<Rightarrow> (self\<lparr>schedule := g\<rparr>, validate (self\<lparr>schedule := g\<rparr>)))"

text \<open>
  \<^verbatim>\<open>clone\<close>: the timezone is copied when it is set and not the empty string, and
  resolved again when the original had a resolved one.
\<close>

definition clone :: "tzdb \<Rightarrow> WeeklySchedule \<Rightarrow> error + WeeklySchedule" where
  "clone db self =
     (let new_sched = init\<lparr>schedule := schedule self\<rparr>
      in case (if timezone self \<noteq> None \<and> timezone self \<noteq> Some [] then
                 (case pytz self of
                    None \<Rightarrow> Inr (new_sched\<lparr>timezone := timezone self, pytz := None\<rparr>)
                  | Some z \<Rightarrow>
                      (case pytz_timezone db (timezone self) of
                         Inl e \<Rightarrow> Inl e
                       | Inr z' \<Rightarrow>
                           Inr (new_sched\<lparr>timezone := timezone self, pytz := Some z'\<rparr>)))
               else Inr new_sched) of
           Inl e \<Rightarrow> Inl e
         | Inr s \<Rightarrow>
             (case is_working_day_fun self of
                None \<Rightarrow> Inr s
              | Some f \<Rightarrow> Inr (s\<lparr>is_working_day_fun := Some f\<rparr>)))"

subsection \<open>Queries\<close>

text \<open>
  \<^verbatim>\<open>self._schedule[weekday, hour, minute]\<close> on an array of three axes: the cell, a
  scalar of the array's dtype. (On an array of another rank the expression does not
  give a cell; no grid that passed \<^verbatim>\<open>_validate\<close> has one.) The \<^verbatim>\<open>False\<close> that
  \<^verbatim>\<open>is_on_at\<close> returns on a day that is not a working day is Python's, which equals
  numpy's and is the same scalar here.
\<close>

definition is_on_weekly_schedule ::
  "WeeklySchedule \<Rightarrow> int \<Rightarrow> int \<Rightarrow> int \<Rightarrow> error + scalar" where
  "is_on_weekly_schedule self wd h m =
     (case np_shape (schedule self) of
        [d0, d1, d2] \<Rightarrow>
          (case axis_index d0 wd of
             Inl e \<Rightarrow> Inl e
           | Inr i \<Rightarrow>
               (case axis_index d1 h of
                  Inl e \<Rightarrow> Inl e
                | Inr j \<Rightarrow>
                    (case axis_index d2 m of
                       Inl e \<Rightarrow> Inl e
                     | Inr k \<Rightarrow> Inr (item_at (schedule self) ((i * d1 + j) * d2 + k)))))
      | _ \<Rightarrow> Inl IndexError)"

definition is_on_at :: "WeeklySchedule \<Rightarrow> pyarg \<Rightarrow> error + scalar" where
  "is_on_at self arg =
     (case arg of
        PyNone \<Rightarrow> Inl (AssertionError ''dt should not be None'')
      | PyOther \<Rightarrow> Inl (AssertionError ''dt should be a datetime'')
      | PyDatetime dt \<Rightarrow>
          (case is_working_day_fun self of
             None \<Rightarrow>
               is_on_weekly_schedule self (weekday dt) (int (hour dt)) (int (minute dt))
           | Some f \<Rightarrow>
               if \<not> f dt then Inr (BoolScalar False)
               else is_on_weekly_schedule self (weekday dt) (int (hour dt)) (int (minute dt))))"

text \<open>
  \<^verbatim>\<open>is_on\<close> asks the system clock for the current time in the schedule's timezone;
  the clock is the parameter \<open>now\<close>.
\<close>

definition is_on :: "(tzinfo option \<Rightarrow> datetime) \<Rightarrow> WeeklySchedule \<Rightarrow> error + scalar" where
  "is_on now self = is_on_at self (PyDatetime (now (pytz self)))"

definition is_defined_for_day :: "WeeklySchedule \<Rightarrow> int \<Rightarrow> error + bool" where
  "is_defined_for_day self day =
     (case schedule self of
        BoolArray a \<Rightarrow> map_sum (\<lambda>e. e) (np_any bool_dtype) (getitem a day)
      | IntArray a \<Rightarrow> map_sum (\<lambda>e. e) (np_any int_dtype) (getitem a day)
      | FloatArray a \<Rightarrow> map_sum (\<lambda>e. e) (np_any float_dtype) (getitem a day))"

subsection \<open>A timezone database for examples\<close>

text \<open>
  A database that knows two names, both of fixed offset: \<open>UTC\<close>, and \<open>Etc/GMT-1\<close>,
  which is one hour ahead of UTC.
\<close>

definition sample_tzdb :: tzdb where
  "sample_tzdb name =
     (if name = ''UTC'' then Some (\<lambda>instant. 0)
      else if name = ''Etc/GMT-1'' then Some (\<lambda>instant. 60)
      else None)"

section \<open>Notions used to state the properties\<close>

text \<open>
  An array of the shape \<^verbatim>\<open>_validate\<close> asks for, \<open>(7, 24, 60)\<close>, with its
  \<open>7 * 24 * 60\<close> cells: for the cells of one type, and for the array of a schedule.
\<close>

definition valid_ndarray :: "'a ndarray \<Rightarrow> bool" where
  "valid_ndarray a = (shape a = [7, 24, 60] \<and> length (cells a) = 7 * (24 * 60))"

definition valid_grid :: "np_array \<Rightarrow> bool" where
  "valid_grid a = (np_shape a = [7, 24, 60] \<and> length (np_values a) = 7 * (24 * 60))"

text \<open>
  The flattened vector of the \<open>24 * 60\<close> minutes of a day,
  \<^verbatim>\<open>self._schedule[day].reshape(24 * 60)\<close>.
\<close>

definition day_vector :: "'a ndarray \<Rightarrow> nat \<Rightarrow> 'a list" where
  "day_vector a d = take (24 * 60) (drop (d * (24 * 60)) (cells a))"

text \<open>
  The delayed copy of a day vector in the words of the specification: \<open>n\<close> false
  minutes are put in front of the vector and the last \<open>n\<close> minutes are dropped.
\<close>

definition delayed_copy :: "nat \<Rightarrow> bool list \<Rightarrow> bool list" where
  "delayed_copy n v = take (length (replicate n False @ v) - n) (replicate n False @ v)"

text \<open>The vector \<^verbatim>\<open>to_vector\<close> returns for a day schedule it accepts.\<close>

definition vector_of :: "day_sched \<Rightarrow> bool list" where
  "vector_of s = (case to_vector s of Inr v \<Rightarrow> v | Inl e \<Rightarrow> [])"

text \<open>
  Modelled from the spec: the conversion of an instant into a timezone, which the
  specification says \<^verbatim>\<open>isOnAt\<close> performs and the source does not contain. The
  instant is taken to UTC with its own offset and then to local time with the offset
  the timezone has at that instant; a naive datetime is read as UTC.
\<close>

definition astimezone :: "tzinfo \<Rightarrow> datetime \<Rightarrow> datetime" where
  "astimezone tz dt =
     (let utc = ordinal dt * 1440 + int (hour dt) * 60 + int (minute dt)
                - (case utcoffset dt of None \<Rightarrow> 0 | Some off \<Rightarrow> off);
          local = utc + tz utc
      in \<lparr>ordinal = local div 1440, hour = nat (local mod 1440 div 60),
          minute = nat (local mod 60), second = second dt, utcoffset = Some (tz utc)\<rparr>)"

text \<open>
  The cell the specification says \<^verbatim>\<open>isOnAt\<close> returns: the one at the weekday, hour
  and minute of the instant converted into the schedule's timezone.
\<close>

definition cell_in_timezone :: "WeeklySchedule \<Rightarrow> datetime \<Rightarrow> error + scalar" where
  "cell_in_timezone self dt =
     (case pytz self of
        None \<Rightarrow> is_on_weekly_schedule self (weekday dt) (int (hour dt)) (int (minute dt))
      | Some tz \<Rightarrow>
          is_on_weekly_schedule self (weekday (astimezone tz dt))
            (int (hour (astimezone tz dt))) (int (minute (astimezone tz dt))))"

text \<open>
  The schedules a caller can hold: what the constructors return, and what a method
  leaves of a schedule it was called on, whether it returned or raised, on whatever
  machine. A caller's array has as many cells as its shape says.
\<close>

inductive reachable :: "tzdb \<Rightarrow> WeeklySchedule \<Rightarrow> bool" for db :: tzdb where
  reach_init: "reachable db init"
| reach_never: "never db = Inr w \<Longrightarrow> reachable db w"
| reach_always: "always db = Inr w \<Longrightarrow> reachable db w"
| reach_from_raw_dict: "from_raw db (RawDict d) tz = Inr w \<Longrightarrow> reachable db w"
| reach_from_raw_array:
    "length (np_values a) = prod_list (np_shape a) \<Longrightarrow> from_raw db (RawArray a) tz = Inr w \<Longrightarrow>
     reachable db w"
| reach_from_to: "from_to day_start day_end day_sched = Inr w \<Longrightarrow> reachable db w"
| reach_invert: "reachable db w \<Longrightarrow> invert db w = Inr w' \<Longrightarrow> reachable db w'"
| reach_clone: "reachable db w \<Longrightarrow> clone db w = Inr w' \<Longrightarrow> reachable db w'"
| reach_for_timezone:
    "reachable db w \<Longrightarrow> for_timezone db w zone = (w', r) \<Longrightarrow> reachable db w'"
| reach_calendar:
    "reachable db w \<Longrightarrow> with_working_days_calendar w c = (w', r) \<Longrightarrow> reachable db w'"
| reach_monday: "reachable db w \<Longrightarrow> monday w day_sched = (w', r) \<Longrightarrow> reachable db w'"
| reach_tuesday: "reachable db w \<Longrightarrow> tuesday w day_sched = (w', r) \<Longrightarrow> reachable db w'"
| reach_wednesday:
    "reachable db w \<Longrightarrow> wednesday w day_sched = (w', r) \<Longrightarrow> reachable db w'"
| reach_thursday: "reachable db w \<Longrightarrow> thursday w day_sched = (w', r) \<Longrightarrow> reachable db w'"
| reach_friday: "reachable db w \<Longrightarrow> friday w day_sched = (w', r) \<Longrightarrow> reachable db w'"
| reach_saturday: "reachable db w \<Longrightarrow> saturday w day_sched = (w', r) \<Longrightarrow> reachable db w'"
| reach_sunday: "reachable db w \<Longrightarrow> sunday w day_sched = (w', r) \<Longrightarrow> reachable db w'"
| reach_shift_start:
    "reachable db w \<Longrightarrow> shift_start memory w hours minutes = (w', r) \<Longrightarrow> reachable db w'"

subsection \<open>Example values\<close>

text \<open>
  Monday 2022-02-07 (ordinal 738193) at a time of day, in UTC; and the schedule of the
  specification's boundary scenario, \<^verbatim>\<open>{0: ((6, 0), (18, 0))}\<close>.
\<close>

definition monday_utc :: "nat \<Rightarrow> nat \<Rightarrow> nat \<Rightarrow> datetime" where
  "monday_utc h m s = \<lparr>ordinal = 738193, hour = h, minute = m, second = s, utcoffset = Some 0\<rparr>"

definition office_hours :: raw_dict where
  "office_hours = [(0, Single (6, 0) (18, 0))]"

definition office_grid :: "bool ndarray" where
  "office_grid = \<lparr>shape = [7, 24, 60],
                   cells = slice_fill (replicate 1440 False) 360 1080 @ replicate 8640 False\<rparr>"

text \<open>
  A machine that allocates arrays of up to a billion cells; a caller's grid of floats
  whose cells are all 0.5, and one of integers whose cells are all 1.
\<close>

definition sample_memory :: nat where
  "sample_memory = 10 ^ 9"

definition half_grid :: np_array where
  "half_grid = FloatArray \<lparr>shape = [7, 24, 60], cells = replicate (7 * 24 * 60) (1 / 2)\<rparr>"

definition int_ones_grid :: np_array where
  "int_ones_grid = IntArray \<lparr>shape = [7, 24, 60], cells = replicate (7 * 24 * 60) 1\<rparr>"

subsection \<open>Canonical compact schedules\<close>

text \<open>
  The index of a time in the minutes of a day, \<^verbatim>\<open>hour * 60 + minute\<close>, and the time
  of an index, \<^verbatim>\<open>divmod(index, 60)\<close>.
\<close>

definition minute_index :: "time \<Rightarrow> nat" where
  "minute_index t = nat (fst t * 60 + snd t)"

definition time_of :: "nat \<Rightarrow> time" where
  "time_of i = (int (i div 60), int (i mod 60))"

text \<open>
  A time of day between 00:00 and 24:00 written the usual way: the minute is between
  0 and 59, and 24 hours come with 0 minutes only.
\<close>

definition clock_time :: "time \<Rightarrow> bool" where
  "clock_time t =
     (0 \<le> fst t \<and> 0 \<le> snd t \<and> snd t < 60 \<and> (fst t < 24 \<or> (fst t = 24 \<and> snd t = 0)))"

text \<open>
  Slots listed in increasing order, each starting before it ends and at least one
  minute after the slot before it ended (from minute \<open>lo\<close> on).
\<close>

fun ordered_slots :: "nat \<Rightarrow> (time \<times> time) list \<Rightarrow> bool" where
  "ordered_slots lo [] = True"
| "ordered_slots lo ((s, e) # rest) =
     (clock_time s \<and> clock_time e \<and> lo \<le> minute_index s \<and> minute_index s < minute_index e
      \<and> ordered_slots (Suc (minute_index e)) rest)"

fun ordered_day :: "day_sched \<Rightarrow> bool" where
  "ordered_day (Single s e) = ordered_slots 0 [(s, e)]"
| "ordered_day (Multi ivs) = (ivs \<noteq> [] \<and> ordered_slots 0 ivs)"

text \<open>A tuple of exactly one slot, unwrapped to the slot.\<close>

fun unwrap :: "day_sched \<Rightarrow> day_sched" where
  "unwrap (Multi [(s, e)]) = Single s e"
| "unwrap day_sched = day_sched"

text \<open>
  The canonical form of a compact schedule in the words of the specification: a day
  whose vector is all false is left out, a day that is entirely true is rendered as
  \<^verbatim>\<open>((0, 0), (24, 0))\<close>, a tuple of one slot is unwrapped, and any other day is kept
  as it is written.
\<close>

definition canonical_day :: "day_sched \<Rightarrow> day_sched" where
  "canonical_day s =
     (if list_all (\<lambda>b. b) (vector_of s) then Single (0, 0) (24, 0) else unwrap s)"

definition canonical_form :: "raw_dict \<Rightarrow> raw_dict" where
  "canonical_form S =
     map (\<lambda>(day, s). (day, canonical_day s))
       (filter (\<lambda>(day, s). list_ex (\<lambda>b. b) (vector_of s)) S)"

subsection \<open>Notions used in the proofs\<close>

text \<open>The slot bounds of a tuple of slots, in the order written.\<close>

fun flat_bounds :: "(time \<times> time) list \<Rightarrow> nat list" where
  "flat_bounds [] = []"
| "flat_bounds ((s, e) # rest) = minute_index s # minute_index e # flat_bounds rest"

text \<open>Whether a minute lies in one of the slots.\<close>

definition covered :: "(time \<times> time) list \<Rightarrow> nat \<Rightarrow> bool" where
  "covered ivs i = list_ex (\<lambda>(s, e). minute_index s \<le> i \<and> i < minute_index e) ivs"

text \<open>What \<^verbatim>\<open>format_schedule\<close> makes of the vector of one day.\<close>

definition decode_day :: "bool list \<Rightarrow> day_sched option" where
  "decode_day v =
     (case format_day bool_dtype \<lparr>shape = [24, 60], cells = v\<rparr> of Inr r \<Rightarrow> r | Inl e \<Rightarrow> None)"

text \<open>
  The indexes at which a vector differs from its predecessor cell,
  \<^verbatim>\<open>np.argwhere(rolled_slots != flat_slots)\<close>.
\<close>

definition changes :: "bool list \<Rightarrow> nat list" where
  "changes v = filter (\<lambda>i. v ! (i - 1) \<noteq> v ! i) [1..<length v]"

text \<open>The slots of a day schedule, as a list.\<close>

fun slots_of :: "day_sched \<Rightarrow> (time \<times> time) list" where
  "slots_of (Single s e) = [(s, e)]"
| "slots_of (Multi ivs) = ivs"

text \<open>
  \<^verbatim>\<open>WeeklySchedule.from_raw(S, tz).formatted_schedule\<close>: a compact schedule encoded and
  decoded again.
\<close>

definition round_trip :: "tzdb \<Rightarrow> raw_dict \<Rightarrow> string \<Rightarrow> error + raw_dict" where
  "round_trip db S tz =
     (case from_raw db (RawDict S) tz of Inl e \<Rightarrow> Inl e | Inr w \<Rightarrow> format_schedule w)"

text \<open>A schedule whose two Monday slots overlap.\<close>

definition overlapping :: raw_dict where
  "overlapping = [(0, Multi [((0, 0), (7, 0)), ((6, 0), (8, 0))])]"

text \<open>
  The night-and-weekend schedule of the specification's scenario and of the
  repository's tests.
\<close>

definition night_and_weekend :: raw_dict where
  "night_and_weekend =
     [(0, Multi [((0, 0), (7, 0)), ((20, 0), (24, 0))]),
      (1, Multi [((0, 0), (7, 0)), ((20, 0), (24, 0))]),
      (2, Multi [((0, 0), (7, 0)), ((20, 0), (24, 0))]),
      (3, Multi [((0, 0), (7, 0)), ((20, 0), (24, 0))]),
      (4, Multi [((0, 0), (7, 0)), ((20, 0), (24, 0))]),
      (5, Single (0, 0) (24, 0)),
      (6, Single (0, 0) (24, 0))]"

subsection \<open>True runs\<close>

text \<open>
  The minutes from \<open>a\<close> up to, not including, \<open>b\<close> are a true run of a vector: they
  are all true, and the run cannot be extended on either side.
\<close>

definition true_run :: "bool list \<Rightarrow> nat \<Rightarrow> nat \<Rightarrow> bool" where
  "true_run v a b =
     (a < b \<and> b \<le> length v \<and> list_all (\<lambda>i. v ! i) [a..<b]
      \<and> (a = 0 \<or> \<not> v ! (a - 1)) \<and> (b = length v \<or> \<not> v ! b))"

text \<open>
  What the specification says a shift of \<open>n\<close> minutes makes of the run from \<open>a\<close> to
  \<open>b\<close>: in the new vector its end is where it was and its start is \<open>n\<close> minutes later,
  so minute \<open>i\<close> of the run is on exactly from \<open>a + n\<close> on.
\<close>

definition start_delayed :: "nat \<Rightarrow> bool list \<Rightarrow> nat \<Rightarrow> nat \<Rightarrow> bool" where
  "start_delayed n v' a b = list_all (\<lambda>i. v' ! i = (a + n \<le> i)) [a..<b]"

text \<open>
  A Monday with two slots half an hour apart, 00:00 to 01:00 and 01:30 to 03:00, and
  the schedule \<^verbatim>\<open>from_raw\<close> builds from it in UTC.
\<close>

definition close_slots :: raw_dict where
  "close_slots = [(0, Multi [((0, 0), (1, 0)), ((1, 30), (3, 0))])]"

definition close_slots_grid :: "bool ndarray" where
  "close_slots_grid =
     \<lparr>shape = [7, 24, 60],
      cells = vector_of (Multi [((0, 0), (1, 0)), ((1, 30), (3, 0))]) @ replicate 8640 False\<rparr>"

definition close_slots_schedule :: WeeklySchedule where
  "close_slots_schedule =
     \<lparr>schedule = BoolArray close_slots_grid, timezone = Some ''UTC'',
      pytz = Some (\<lambda>instant. 0), is_working_day_fun = None\<rparr>"

section \<open>Arrays of seven days\<close>

lemma bool_dtype_simps [simp]:
  "from_bool bool_dtype = (\<lambda>b. b)" "truth bool_dtype = (\<lambda>b. b)" "bit_and bool_dtype = Some (\<and>)"
  by (simp_all add: bool_dtype_def)

lemma int_dtype_simps [simp]:
  "from_bool int_dtype = of_bool" "truth int_dtype = (\<lambda>x. x \<noteq> 0)" "bit_and int_dtype = Some (AND)"
  by (simp_all add: int_dtype_def)

lemma float_dtype_simps [simp]:
  "from_bool float_dtype = of_bool" "truth float_dtype = (\<lambda>x. x \<noteq> 0)" "bit_and float_dtype = None"
  by (simp_all add: float_dtype_def)

lemma astype_bool [simp]: "astype bool_dtype v = v"
  by (simp add: astype_def)

lemma astype_simps [simp]:
  "shape (astype dt v) = shape v" "cells (astype dt v) = map (from_bool dt) (cells v)"
  by (simp_all add: astype_def)

lemma upt_0_7: "[0..<7] = [0, 1, 2, 3, 4, 5, Suc 5]"
  by (simp add: upt_rec)

lemma axis_index_nat: "d < n \<Longrightarrow> axis_index n (int d) = Inr d"
  by (simp add: axis_index_def)

lemma splice_nth:
  assumes "length cs = 10080" "d < 7" "length v = 1440" "d' < 7" "j < 1440"
  shows "(take (d * 1440) cs @ v @ drop (Suc d * 1440) cs) ! (d' * 1440 + j)
         = (if d' = d then v ! j else cs ! (d' * 1440 + j))"
proof -
  consider "d' < d" | "d' = d" | "d < d'" by linarith
  then show ?thesis
  proof cases
    case 1
    then have "d' * 1440 + j < d * 1440" using assms by linarith
    then show ?thesis using 1 assms by (simp add: nth_append)
  next
    case 2
    then show ?thesis using assms by (simp add: nth_append)
  next
    case 3
    then have le: "d * 1440 + 1440 \<le> d' * 1440 + j" by linarith
    define k where "k = d' * 1440 + j - (d * 1440 + 1440)"
    have k: "d' * 1440 + j = d * 1440 + (1440 + k)"
      using le by (simp add: k_def)
    have "(take (d * 1440) cs @ (v @ drop (Suc d * 1440) cs)) ! (d * 1440 + (1440 + k))
               = (v @ drop (Suc d * 1440) cs) ! (1440 + k)"
      using assms nth_append_length_plus[of "take (d * 1440) cs" _ "1440 + k"] by simp
    also have "\<dots> = drop (Suc d * 1440) cs ! k"
      using assms nth_append_length_plus[of v _ k] by simp
    also have "\<dots> = cs ! (Suc d * 1440 + k)"
      using assms by simp
    also have "Suc d * 1440 + k = d' * 1440 + j"
      using k by simp
    finally show ?thesis using 3 k by simp
  qed
qed

lemma splice_day:
  assumes "length cs = 10080" "d < 7" "length v = 1440" "d' < 7"
  shows "take 1440 (drop (d' * 1440) (take (d * 1440) cs @ v @ drop (Suc d * 1440) cs))
         = (if d' = d then v else take 1440 (drop (d' * 1440) cs))"
proof -
  define X where "X = take (d * 1440) cs @ v @ drop (Suc d * 1440) cs"
  have lx: "length X = 10080" using assms by (simp add: X_def)
  have "take 1440 (drop (d' * 1440) X) = (if d' = d then v else take 1440 (drop (d' * 1440) cs))"
  proof (rule nth_equalityI)
    show "length (take 1440 (drop (d' * 1440) X))
          = length (if d' = d then v else take 1440 (drop (d' * 1440) cs))"
      using assms lx by simp
  next
    fix j
    assume "j < length (take 1440 (drop (d' * 1440) X))"
    then have j: "j < 1440" by simp
    have "take 1440 (drop (d' * 1440) X) ! j = X ! (d' * 1440 + j)"
      using j lx assms by simp
    also have "\<dots> = (if d' = d then v ! j else cs ! (d' * 1440 + j))"
      unfolding X_def by (rule splice_nth[OF assms j])
    also have "\<dots> = (if d' = d then v else take 1440 (drop (d' * 1440) cs)) ! j"
      using j assms by simp
    finally show "take 1440 (drop (d' * 1440) X) ! j
             = (if d' = d then v else take 1440 (drop (d' * 1440) cs)) ! j" .
  qed
  then show ?thesis by (simp only: X_def)
qed

lemma length_day_vector:
  "length (cells a) = 10080 \<Longrightarrow> d < 7 \<Longrightarrow> length (day_vector a d) = 1440"
  by (simp add: day_vector_def)

lemma nth_day_vector:
  "length (cells a) = 10080 \<Longrightarrow> d < 7 \<Longrightarrow> j < 1440 \<Longrightarrow> day_vector a d ! j = cells a ! (d * 1440 + j)"
  by (simp add: day_vector_def)

lemma getitem_rows:
  "shape a = 7 # sh \<Longrightarrow> prod_list sh = 1440 \<Longrightarrow> d < 7 \<Longrightarrow>
   getitem a (int d) = Inr \<lparr>shape = sh, cells = day_vector a d\<rparr>"
  by (simp add: getitem_def axis_index_nat day_vector_def)

lemma setitem_rows:
  "shape a = 7 # sh \<Longrightarrow> prod_list sh = 1440 \<Longrightarrow> d < 7 \<Longrightarrow> shape v = sh \<Longrightarrow>
   setitem a (int d) v
   = Inr (a\<lparr>cells := take (d * 1440) (cells a) @ cells v @ drop (Suc d * 1440) (cells a)\<rparr>)"
  by (simp add: setitem_def axis_index_nat)

lemma day_vector_setitem:
  assumes "length (cells a) = 10080" "d < 7" "length v = 1440" "d' < 7"
  shows "day_vector (a\<lparr>cells := take (d * 1440) (cells a) @ v @ drop (Suc d * 1440) (cells a)\<rparr>) d'
         = (if d' = d then v else day_vector a d')"
  using splice_day[OF assms] by (simp add: day_vector_def)

subsection \<open>Shifting\<close>

text \<open>The masked row of \<^verbatim>\<open>shift_start\<close>, for a positive shift.\<close>

lemma delayed_copy_length: "length (delayed_copy n v) = length v"
  by (simp add: delayed_copy_def)

lemma slice_bound_neg:
  "0 < n \<Longrightarrow> slice_bound (n + k) (- int n) = k"
  by (simp add: slice_bound_def)

lemma np_zeros_sized_ok:
  "n \<le> memory \<Longrightarrow> n < 2 ^ 63 \<Longrightarrow> np_zeros_sized memory n = Inr (replicate n False)"
  by (simp add: np_zeros_sized_def)

lemma shift_row:
  assumes "0 < n"
  shows "np_and bool_dtype v
           (take (slice_bound (length (replicate n False @ v)) (- int n)) (replicate n False @ v))
         = Inr (map2 (\<and>) v (delayed_copy n v))"
proof -
  define p where "p = replicate n False @ v"
  have lp: "length p = n + length v" by (simp add: p_def)
  have sb: "slice_bound (length p) (- int n) = length v"
    using slice_bound_neg[OF assms, of "length v"] lp by simp
  have lt: "length (take (length v) p) = length v" using lp by simp
  have "np_and bool_dtype v (take (length v) p) = Inr (map2 (\<and>) v (take (length v) p))"
    using lt by (simp add: np_and_def)
  moreover have "delayed_copy n v = take (length v) p"
    using lp by (simp add: delayed_copy_def p_def)
  ultimately show ?thesis using sb by (simp add: p_def)
qed

lemma day_vector_cells: "cells a = cells b \<Longrightarrow> day_vector a d = day_vector b d"
  by (simp add: day_vector_def)

lemma shift_days_pos:
  assumes "0 < n" and mem: "n \<le> memory" "n < 2 ^ 63"
  shows "shape ds = [7, 1440] \<Longrightarrow> length (cells ds) = 10080 \<Longrightarrow> list_all (\<lambda>d. d < 7) days \<Longrightarrow>
         distinct days \<Longrightarrow>
         \<exists>ds'. shift_days memory bool_dtype n ds days = (ds', None) \<and> shape ds' = [7, 1440]
           \<and> length (cells ds') = 10080
           \<and> (\<forall>d<7. day_vector ds' d
                  = (if d \<in> set days
                     then map2 (\<and>) (day_vector ds d) (delayed_copy n (day_vector ds d))
                     else day_vector ds d))"
proof (induction days arbitrary: ds)
  case Nil
  then show ?case by simp
next
  case (Cons day rest)
  let ?row = "day_vector ds day"
  let ?masked = "map2 (\<and>) ?row (delayed_copy n ?row)"
  let ?ds1 = "ds\<lparr>cells := take (day * 1440) (cells ds) @ ?masked @ drop (Suc day * 1440) (cells ds)\<rparr>"
  from Cons.prems have day: "day < 7" and rest: "list_all (\<lambda>d. d < 7) rest"
    and notin: "day \<notin> set rest" and dist: "distinct rest" by simp_all
  have lrow: "length ?row = 1440" using Cons.prems day by (simp add: length_day_vector)
  have lmasked: "length ?masked = 1440" using lrow by (simp add: delayed_copy_length)
  have get: "getitem ds (int day) = Inr \<lparr>shape = [1440], cells = ?row\<rparr>"
    using Cons.prems day by (simp add: getitem_rows)
  have set: "setitem ds (int day) \<lparr>shape = [length ?masked], cells = ?masked\<rparr> = Inr ?ds1"
    using Cons.prems day lmasked setitem_rows[of ds "[1440]" day "\<lparr>shape = [length ?masked], cells = ?masked\<rparr>"]
    by simp
  have step: "shift_days memory bool_dtype n ds (day # rest) = shift_days memory bool_dtype n ?ds1 rest"
    using get set shift_row[OF assms(1), of ?row] np_zeros_sized_ok[OF mem] by (simp add: Let_def)
  have sh1: "shape ?ds1 = [7, 1440]" using Cons.prems by simp
  have l1: "length (cells ?ds1) = 10080" using Cons.prems day lmasked by simp
  from Cons.IH[OF sh1 l1 rest dist] obtain ds' where
    r: "shift_days memory bool_dtype n ?ds1 rest = (ds', None)" and s': "shape ds' = [7, 1440]"
    and l': "length (cells ds') = 10080"
    and dv: "\<forall>d<7. day_vector ds' d
                  = (if d \<in> set rest
                     then map2 (\<and>) (day_vector ?ds1 d) (delayed_copy n (day_vector ?ds1 d))
                     else day_vector ?ds1 d)" by blast
  have dv1: "day_vector ?ds1 d = (if d = day then ?masked else day_vector ds d)" if "d < 7" for d
    using day_vector_setitem[of ds day ?masked d] Cons.prems day lmasked that by simp
  have "day_vector ds' d
                  = (if d \<in> set (day # rest)
                     then map2 (\<and>) (day_vector ds d) (delayed_copy n (day_vector ds d))
                     else day_vector ds d)" if "d < 7" for d
    using dv dv1 that notin by auto
  with step r s' l' show ?case by simp
qed

text \<open>
  A shift of zero minutes: the slice is empty, and the first day raises, whatever the
  dtype.
\<close>

lemma shift_days_zero:
  assumes "shape ds = [7, 1440]" "length (cells ds) = 10080"
  shows "shift_days memory dt 0 ds (0 # rest)
         = (ds, Some (case bit_and dt of
                        None \<Rightarrow> TypeError
                      | Some f \<Rightarrow> ValueError ''operands could not be broadcast together''))"
proof -
  have get: "getitem ds 0 = Inr \<lparr>shape = [1440], cells = day_vector ds 0\<rparr>"
    using assms getitem_rows[of ds "[1440]" 0] by simp
  have l: "length (day_vector ds 0) = 1440" using assms by (simp add: length_day_vector)
  have "np_and dt (day_vector ds 0) []
        = Inl (case bit_and dt of
                 None \<Rightarrow> TypeError
               | Some f \<Rightarrow> ValueError ''operands could not be broadcast together'')"
    using l by (simp add: np_and_def split: option.splits)
  then show ?thesis using get by (simp add: slice_bound_def np_zeros_sized_def)
qed

lemma shift_grid_zero:
  assumes "valid_ndarray a"
  shows "shift_grid memory dt 0 a
         = (a, Some (case bit_and dt of
                       None \<Rightarrow> TypeError
                     | Some f \<Rightarrow> ValueError ''operands could not be broadcast together''))"
proof -
  let ?ds = "\<lparr>shape = [7, 1440], cells = cells a\<rparr>"
  have rs: "np_reshape a [7, 24 * 60] = Inr ?ds"
    using assms by (simp add: np_reshape_def valid_ndarray_def)
  have "shift_days memory dt 0 ?ds [0..<7]
         = (?ds, Some (case bit_and dt of
                        None \<Rightarrow> TypeError
                      | Some f \<Rightarrow> ValueError ''operands could not be broadcast together''))"
    unfolding upt_0_7 using assms by (intro shift_days_zero) (simp_all add: valid_ndarray_def)
  then show ?thesis using rs by (simp add: shift_grid_def)
qed

lemma valid_grid_simps [simp]:
  "valid_grid (BoolArray b) = valid_ndarray b"
  "valid_grid (IntArray i) = valid_ndarray i"
  "valid_grid (FloatArray f) = valid_ndarray f"
  by (simp_all add: valid_grid_def valid_ndarray_def)

lemma validate_bool:
  "schedule w = BoolArray g \<Longrightarrow> shape g = [7, 24, 60] \<Longrightarrow> validate w = None"
  by (simp add: validate_def list_all_iff)

lemma validate_None: "validate w = None \<Longrightarrow> np_shape (schedule w) = [7, 24, 60]"
  by (auto simp add: validate_def split: list.splits if_splits)

text \<open>
  A positive shift of a grid of bools, on a machine that can allocate the zeros: every
  day becomes its conjunction with its delayed copy.
\<close>

lemma shift_grid_pos:
  assumes v: "valid_ndarray a" and n: "0 < n" and mem: "n \<le> memory" "n < 2 ^ 63"
  shows "\<exists>g. shift_grid memory bool_dtype n a = (g, None) \<and> valid_ndarray g
           \<and> (\<forall>d<7. day_vector g d
                  = map2 (\<and>) (day_vector a d) (delayed_copy n (day_vector a d)))"
proof -
  let ?ds = "\<lparr>shape = [7, 1440], cells = cells a\<rparr>"
  have rs: "np_reshape a [7, 24 * 60] = Inr ?ds"
    using v by (simp add: np_reshape_def valid_ndarray_def)
  have "list_all (\<lambda>d. d < 7) [0..<7]" "distinct [0..<7]" by (simp_all add: list_all_iff)
  from shift_days_pos[OF n mem _ _ this, of ?ds] v obtain ds' where
    r: "shift_days memory bool_dtype n ?ds [0..<7] = (ds', None)" and s': "shape ds' = [7, 1440]"
    and l': "length (cells ds') = 10080"
    and dv: "\<forall>d<7. day_vector ds' d
                  = (if d \<in> set [0..<7]
                     then map2 (\<and>) (day_vector ?ds d) (delayed_copy n (day_vector ?ds d))
                     else day_vector ?ds d)" by (auto simp add: valid_ndarray_def)
  let ?g = "\<lparr>shape = [7, 24, 60], cells = cells ds'\<rparr>"
  have rs2: "np_reshape ds' [7, 24, 60] = Inr ?g"
    using l' by (simp add: np_reshape_def)
  have vg: "valid_ndarray ?g" using l' by (simp add: valid_ndarray_def)
  have run: "shift_grid memory bool_dtype n a = (?g, None)"
    using rs r rs2 by (simp add: shift_grid_def)
  have "day_vector ?g d = map2 (\<and>) (day_vector a d) (delayed_copy n (day_vector a d))"
    if "d < 7" for d
  proof -
    have "day_vector ?g d = day_vector ds' d" by (simp add: day_vector_def)
    moreover have "day_vector ?ds d = day_vector a d" by (simp add: day_vector_def)
    ultimately show ?thesis using dv that by simp
  qed
  with run vg show ?thesis by blast
qed

lemma shift_start_pos:
  assumes b: "schedule w = BoolArray a" and v: "valid_ndarray a"
    and pos: "0 < hours * 60 + minutes"
    and mem: "hours * 60 + minutes \<le> int memory" "hours * 60 + minutes < 2 ^ 63"
  shows "\<exists>g. shift_start memory w hours minutes = (w\<lparr>schedule := BoolArray g\<rparr>, None)
           \<and> valid_ndarray g
           \<and> (\<forall>d<7. day_vector g d
                  = map2 (\<and>) (day_vector a d)
                      (delayed_copy (nat (hours * 60 + minutes)) (day_vector a d)))"
proof -
  let ?n = "nat (hours * 60 + minutes)"
  have n: "0 < ?n" "?n \<le> memory" using pos mem(1) by simp_all
  have "int ?n < 2 ^ 63" using pos mem(2) by simp
  then have n63: "?n < 2 ^ 63" by (metis of_nat_less_iff of_nat_numeral of_nat_power)
  from shift_grid_pos[OF v n n63] obtain g where
    r: "shift_grid memory bool_dtype ?n a = (g, None)" and vg: "valid_ndarray g"
    and dv: "\<forall>d<7. day_vector g d
                  = map2 (\<and>) (day_vector a d) (delayed_copy ?n (day_vector a d))" by blast
  have "validate (w\<lparr>schedule := BoolArray g\<rparr>) = None"
    using vg by (simp add: validate_bool valid_ndarray_def)
  then have "shift_start memory w hours minutes = (w\<lparr>schedule := BoolArray g\<rparr>, None)"
    using pos b r by (simp add: shift_start_def Let_def)
  with vg dv show ?thesis by blast
qed

lemma shift_start_zero:
  assumes v: "valid_grid (schedule w)"
  shows "shift_start memory w 0 0
         = (w, Some (case schedule w of
                       FloatArray f \<Rightarrow> TypeError
                     | _ \<Rightarrow> ValueError ''operands could not be broadcast together''))"
proof (cases "schedule w")
  case (BoolArray a)
  then show ?thesis using v shift_grid_zero[of a memory bool_dtype]
    by (simp add: shift_start_def)
next
  case (IntArray a)
  then show ?thesis using v shift_grid_zero[of a memory int_dtype]
    by (simp add: shift_start_def)
next
  case (FloatArray a)
  then show ?thesis using v shift_grid_zero[of a memory float_dtype]
    by (simp add: shift_start_def)
qed

lemma valid_grid_init: "valid_grid (schedule init)"
  by (simp add: init_def valid_ndarray_def np_zeros_def)

lemma delayed_copy_nth:
  "i < length v \<Longrightarrow> delayed_copy n v ! i = (n \<le> i \<and> v ! (i - n))"
  by (auto simp add: delayed_copy_def nth_append)

lemma delayed_copy_long:
  "length v \<le> n \<Longrightarrow> delayed_copy n v = replicate (length v) False"
  by (simp add: delayed_copy_def min_def)

lemma map2_and_False: "map2 (\<and>) v (replicate (length v) False) = replicate (length v) False"
  by (rule nth_equalityI) simp_all

subsection \<open>Encoding\<close>

lemma length_slice_fill: "length (slice_fill xs a b) = length xs"
  by (simp add: slice_fill_def)

lemma nth_slice_fill:
  "i < length xs \<Longrightarrow>
   slice_fill xs a b ! i
   = ((slice_bound (length xs) a \<le> i \<and> i < slice_bound (length xs) b) \<or> xs ! i)"
  by (simp add: slice_fill_def)

lemma define_slot_length: "define_slot slots s e = Inr v \<Longrightarrow> length v = length slots"
  by (auto simp add: define_slot_def length_slice_fill split: if_splits)

lemma define_slots_length: "define_slots slots ivs = Inr v \<Longrightarrow> length v = length slots"
proof (induction ivs arbitrary: slots)
  case Nil
  then show ?case by simp
next
  case (Cons iv ivs)
  obtain s e where iv: "iv = (s, e)" by (cases iv)
  from Cons.prems iv obtain slots' where
    1: "define_slot slots s e = Inr slots'" and 2: "define_slots slots' ivs = Inr v"
    by (auto split: sum.splits)
  from Cons.IH[OF 2] define_slot_length[OF 1] show ?case by simp
qed

lemma to_vector_length: "to_vector s = Inr v \<Longrightarrow> length v = 1440"
  by (cases s)
     (auto simp add: to_vector_def dest: define_slot_length define_slots_length split: if_splits)

lemma vector_of_eq: "to_vector s = Inr v \<Longrightarrow> vector_of s = v"
  by (simp add: vector_of_def)

lemma valid_ndarray_zeros: "valid_ndarray (np_zeros [7, 24, 60])"
  by (simp add: valid_ndarray_def np_zeros_def)

lemma setitem_day:
  assumes "valid_ndarray a" "d < 7" "length v = 1440"
  shows "setitem a (int d) (reshape_24_60 v)
         = Inr (a\<lparr>cells := take (d * 1440) (cells a) @ v @ drop (Suc d * 1440) (cells a)\<rparr>)"
  using assms setitem_rows[of a "[24, 60]" d "reshape_24_60 v"]
  by (simp add: valid_ndarray_def reshape_24_60_def)

lemma valid_ndarray_splice:
  assumes "valid_ndarray a" "d < 7" "length v = 1440"
  shows "valid_ndarray (a\<lparr>cells := take (d * 1440) (cells a) @ v @ drop (Suc d * 1440) (cells a)\<rparr>)"
  using assms by (simp add: valid_ndarray_def)

lemma to_matrix_items_day:
  "valid_ndarray slots \<Longrightarrow> distinct (map fst items) \<Longrightarrow> to_matrix_items slots items = Inr g \<Longrightarrow>
   valid_ndarray g \<and>
   (\<forall>d<7. day_vector g d
      = (case map_of items (int d) of None \<Rightarrow> day_vector slots d | Some s \<Rightarrow> vector_of s))"
proof (induction items arbitrary: slots)
  case Nil
  then show ?case by simp
next
  case (Cons item rest)
  obtain day s where item: "item = (day, s)" by (cases item)
  from Cons.prems(3) item have range: "0 \<le> day" "day < 7"
    by (auto split: if_splits)
  then obtain k where k: "day = int k" "k < 7"
    by (metis nat_less_iff nat_0_le zless_nat_conj of_nat_numeral nat_int)
  from Cons.prems(3) item range obtain v where v: "to_vector s = Inr v"
    by (auto split: sum.splits)
  have lv: "length v = 1440" using v by (rule to_vector_length)
  let ?slots' = "slots\<lparr>cells := take (k * 1440) (cells slots) @ v @ drop (Suc k * 1440) (cells slots)\<rparr>"
  have set: "setitem slots day (reshape_24_60 v) = Inr ?slots'"
    using setitem_day[OF Cons.prems(1) k(2) lv] k(1) by simp
  have rest: "to_matrix_items ?slots' rest = Inr g"
    using Cons.prems(3) item range v set by simp
  have v': "valid_ndarray ?slots'" using Cons.prems(1) k(2) lv by (rule valid_ndarray_splice)
  have dist: "distinct (map fst rest)" and notin: "day \<notin> fst ` set rest"
    using Cons.prems(2) item by simp_all
  from Cons.IH[OF v' dist rest] have vg: "valid_ndarray g"
    and dv: "\<forall>d<7. day_vector g d
      = (case map_of rest (int d) of None \<Rightarrow> day_vector ?slots' d | Some s \<Rightarrow> vector_of s)"
    by simp_all
  have dv': "day_vector ?slots' d = (if d = k then v else day_vector slots d)" if "d < 7" for d
    using day_vector_setitem[of slots k v d] Cons.prems(1) k(2) lv that
    by (simp add: valid_ndarray_def)
  have "day_vector g d
      = (case map_of (item # rest) (int d) of None \<Rightarrow> day_vector slots d | Some s \<Rightarrow> vector_of s)"
    if d: "d < 7" for d
  proof (cases "map_of rest (int d)")
    case None
    then show ?thesis using dv dv' d item k(1) vector_of_eq[OF v] by auto
  next
    case (Some s')
    then have "int d \<in> fst ` set rest" by (metis map_of_eq_None_iff option.distinct(1))
    then have "int d \<noteq> day" using notin by auto
    then show ?thesis using dv d item Some by simp
  qed
  with vg show ?case by simp
qed

lemma to_matrix_day:
  assumes "distinct (map fst items)" "to_matrix items = Inr g"
  shows "valid_ndarray g"
    and "d < 7 \<Longrightarrow> day_vector g d
      = (case map_of items (int d) of None \<Rightarrow> replicate 1440 False | Some s \<Rightarrow> vector_of s)"
proof -
  have z: "day_vector (np_zeros [7, 24, 60]) d = replicate 1440 False" if "d < 7" for d
    using that by (simp add: day_vector_def np_zeros_def)
  from to_matrix_items_day[OF valid_ndarray_zeros assms(1)] assms(2)
  have *: "valid_ndarray g \<and>
   (\<forall>d<7. day_vector g d
      = (case map_of items (int d) of None \<Rightarrow> day_vector (np_zeros [7, 24, 60]) d | Some s \<Rightarrow> vector_of s))"
    by (simp add: to_matrix_def)
  then show "valid_ndarray g" by simp
  show "day_vector g d
      = (case map_of items (int d) of None \<Rightarrow> replicate 1440 False | Some s \<Rightarrow> vector_of s)"
    if "d < 7"
    using * z that by (simp split: option.splits)
qed

lemma validate_valid:
  "schedule w = BoolArray g \<Longrightarrow> valid_ndarray g \<Longrightarrow> validate w = None"
  by (simp add: validate_bool valid_ndarray_def)

text \<open>What \<^verbatim>\<open>_validate\<close> checks, and all it checks.\<close>

lemma validate_iff:
  "validate w = None
   \<longleftrightarrow> np_shape (schedule w) = [7, 24, 60]
       \<and> list_all (\<lambda>x. 0 \<le> x \<and> x \<le> 1) (np_values (schedule w))"
  by (auto simp add: validate_def list_all_iff split: list.splits)

lemma for_timezone_known:
  "db name = Some z \<Longrightarrow>
   for_timezone db w (Some name) = (w\<lparr>timezone := Some name, pytz := Some z\<rparr>, None)"
  by (simp add: for_timezone_def pytz_timezone_def)

lemma from_raw_dict:
  assumes "db tz = Some z" "items \<noteq> []" "to_matrix items = Inr g" "shape g = [7, 24, 60]"
  shows "from_raw db (RawDict items) tz
         = Inr \<lparr>schedule = BoolArray g, timezone = Some tz, pytz = Some z,
                is_working_day_fun = None\<rparr>"
  using assms
  by (simp add: from_raw_def for_timezone_known init_def validate_bool)

lemma from_raw_array:
  assumes "db tz = Some z" "np_shape a = [7, 24, 60]"
    "list_all (\<lambda>x. 0 \<le> x \<and> x \<le> 1) (np_values a)"
  shows "from_raw db (RawArray a) tz
         = Inr \<lparr>schedule = a, timezone = Some tz, pytz = Some z, is_working_day_fun = None\<rparr>"
proof -
  have "validate \<lparr>schedule = a, timezone = Some tz, pytz = Some z, is_working_day_fun = None\<rparr>
        = None"
    using assms(2,3) by (simp add: validate_iff)
  then show ?thesis
    using assms(1) by (simp add: from_raw_def for_timezone_known init_def)
qed

lemma from_raw_bool_array:
  assumes "db tz = Some z" "shape g = [7, 24, 60]"
  shows "from_raw db (RawArray (BoolArray g)) tz
         = Inr \<lparr>schedule = BoolArray g, timezone = Some tz, pytz = Some z,
                is_working_day_fun = None\<rparr>"
  using assms
  by (simp add: from_raw_def for_timezone_known init_def validate_bool)

subsection \<open>Queries on a valid grid\<close>

lemma is_on_weekly_schedule_item:
  assumes "valid_grid (schedule w)" "wd < 7" "h < 24" "m < 60"
  shows "is_on_weekly_schedule w (int wd) (int h) (int m)
         = Inr (item_at (schedule w) ((wd * 24 + h) * 60 + m))"
  using assms by (simp add: is_on_weekly_schedule_def valid_grid_def axis_index_nat)

lemma is_on_weekly_schedule_valid:
  assumes "schedule w = BoolArray g" "valid_ndarray g" "wd < 7" "h < 24" "m < 60"
  shows "is_on_weekly_schedule w (int wd) (int h) (int m)
         = Inr (BoolScalar (day_vector g wd ! (h * 60 + m)))"
proof -
  have "h * 60 + m < 1440" using assms by linarith
  then have "day_vector g wd ! (h * 60 + m) = cells g ! (wd * 1440 + (h * 60 + m))"
    using assms by (simp add: nth_day_vector valid_ndarray_def)
  moreover have "(wd * 24 + h) * 60 + m = wd * 1440 + (h * 60 + m)" by simp
  moreover have "is_on_weekly_schedule w (int wd) (int h) (int m)
                 = Inr (BoolScalar (cells g ! ((wd * 24 + h) * 60 + m)))"
    using assms is_on_weekly_schedule_item[of w wd h m] by simp
  ultimately show ?thesis by (simp only:)
qed

lemma weekday_range: "0 \<le> weekday dt \<and> weekday dt < 7"
  by (simp add: weekday_def)

lemma is_on_at_item:
  assumes "valid_grid (schedule w)" "is_working_day_fun w = None" "valid_datetime dt"
  shows "is_on_at w (PyDatetime dt)
         = Inr (item_at (schedule w) ((nat (weekday dt) * 24 + hour dt) * 60 + minute dt))"
proof -
  have "nat (weekday dt) < 7" using weekday_range[of dt] by linarith
  moreover have "int (nat (weekday dt)) = weekday dt" using weekday_range[of dt] by simp
  ultimately show ?thesis
    using is_on_weekly_schedule_item[OF assms(1), of "nat (weekday dt)" "hour dt" "minute dt"] assms
    by (simp add: is_on_at_def valid_datetime_def)
qed

lemma is_on_at_valid:
  assumes "schedule w = BoolArray g" "valid_ndarray g" "is_working_day_fun w = None"
    "valid_datetime dt"
  shows "is_on_at w (PyDatetime dt)
         = Inr (BoolScalar (day_vector g (nat (weekday dt)) ! (hour dt * 60 + minute dt)))"
proof -
  have "nat (weekday dt) < 7" using weekday_range[of dt] by linarith
  moreover have "int (nat (weekday dt)) = weekday dt" using weekday_range[of dt] by simp
  ultimately show ?thesis
    using is_on_weekly_schedule_valid[OF assms(1,2), of "nat (weekday dt)" "hour dt" "minute dt"]
      assms
    by (simp add: is_on_at_def valid_datetime_def)
qed

subsection \<open>The boundary scenario\<close>

lemma to_vector_office:
  "to_vector (Single (6, 0) (18, 0)) = Inr (slice_fill (replicate 1440 False) 360 1080)"
  by (simp add: to_vector_def define_slot_def)

lemma to_matrix_office: "to_matrix office_hours = Inr office_grid"
  by (simp add: to_matrix_def office_hours_def to_vector_office setitem_def np_zeros_def
      axis_index_def reshape_24_60_def office_grid_def)

lemma valid_office_grid: "valid_ndarray office_grid"
  by (simp add: valid_ndarray_def office_grid_def length_slice_fill)

lemma office_grid_monday:
  "i < 1440 \<Longrightarrow> day_vector office_grid 0 ! i = (360 \<le> i \<and> i < 1080)"
  by (simp add: day_vector_def office_grid_def length_slice_fill nth_append nth_slice_fill
      slice_bound_def)

lemma from_raw_office:
  "sample_tzdb tz = Some z \<Longrightarrow>
   from_raw sample_tzdb (RawDict office_hours) tz
   = Inr \<lparr>schedule = BoolArray office_grid, timezone = Some tz, pytz = Some z,
          is_working_day_fun = None\<rparr>"
  by (rule from_raw_dict[OF _ _ to_matrix_office]) (simp_all add: office_hours_def office_grid_def)

lemma weekday_monday_utc: "weekday (monday_utc h m s) = 0"
  by (simp add: weekday_def monday_utc_def)

lemma is_on_at_office:
  assumes "h < 24" "m < 60" "s < 60"
  shows "is_on_at \<lparr>schedule = BoolArray office_grid, timezone = tz, pytz = z,
                   is_working_day_fun = None\<rparr>
           (PyDatetime (monday_utc h m s))
         = Inr (BoolScalar (360 \<le> h * 60 + m \<and> h * 60 + m < 1080))"
proof -
  have "valid_datetime (monday_utc h m s)"
    using assms by (simp add: valid_datetime_def monday_utc_def)
  moreover have "h * 60 + m < 1440" using assms by linarith
  ultimately show ?thesis
    using is_on_at_valid[of "\<lparr>schedule = BoolArray office_grid, timezone = tz, pytz = z,
                              is_working_day_fun = None\<rparr>" office_grid
        "monday_utc h m s"] valid_office_grid
    by (simp add: weekday_def office_grid_monday monday_utc_def)
qed

subsection \<open>Operations keep the grid valid\<close>

lemma to_matrix_items_valid:
  "valid_ndarray slots \<Longrightarrow> to_matrix_items slots items = Inr g \<Longrightarrow> valid_ndarray g"
proof (induction items arbitrary: slots)
  case Nil
  then show ?case by simp
next
  case (Cons item rest)
  obtain day s where item: "item = (day, s)" by (cases item)
  from Cons.prems(2) item have range: "0 \<le> day" "day < 7"
    by (auto split: if_splits)
  define k where "k = nat day"
  have k: "day = int k" "k < 7" using range by (simp_all add: k_def)
  from Cons.prems(2) item range obtain v where v: "to_vector s = Inr v"
    by (auto split: sum.splits)
  have lv: "length v = 1440" using v by (rule to_vector_length)
  let ?slots' = "slots\<lparr>cells := take (k * 1440) (cells slots) @ v @ drop (Suc k * 1440) (cells slots)\<rparr>"
  have set: "setitem slots day (reshape_24_60 v) = Inr ?slots'"
    using setitem_day[OF Cons.prems(1) k(2) lv] k(1) by simp
  have rest: "to_matrix_items ?slots' rest = Inr g"
    using Cons.prems(2) item range v set by simp
  have "valid_ndarray ?slots'" using Cons.prems(1) k(2) lv by (rule valid_ndarray_splice)
  from Cons.IH[OF this rest] show ?case .
qed

lemma to_matrix_valid: "to_matrix items = Inr g \<Longrightarrow> valid_ndarray g"
  using to_matrix_items_valid[OF valid_ndarray_zeros] by (simp add: to_matrix_def)

lemma for_timezone_schedule: "for_timezone db w zone = (w', r) \<Longrightarrow> schedule w' = schedule w"
  by (auto simp add: for_timezone_def Let_def split: sum.splits)

lemma from_raw_shape: "from_raw db raw tz = Inr w \<Longrightarrow> np_shape (schedule w) = [7, 24, 60]"
  by (auto simp add: from_raw_def dest: validate_None split: sum.splits option.splits prod.splits)

lemma from_raw_values:
  "from_raw db raw tz = Inr w \<Longrightarrow> list_all (\<lambda>x. 0 \<le> x \<and> x \<le> 1) (np_values (schedule w))"
  by (auto simp add: from_raw_def validate_iff split: sum.splits option.splits prod.splits)

lemma from_raw_dict_schedule:
  assumes "from_raw db (RawDict d) tz = Inr w"
  shows "\<exists>g. to_matrix d = Inr g \<and> schedule w = BoolArray g"
proof (cases "to_matrix d")
  case (Inl e)
  then show ?thesis using assms by (simp add: from_raw_def split: if_splits)
next
  case (Inr g)
  then show ?thesis using assms
    by (auto simp add: from_raw_def init_def dest: for_timezone_schedule
        split: if_splits prod.splits option.splits)
qed

lemma from_raw_array_schedule: "from_raw db (RawArray a) tz = Inr w \<Longrightarrow> schedule w = a"
  by (auto simp add: from_raw_def init_def dest: for_timezone_schedule
      split: prod.splits option.splits)

lemma from_raw_valid:
  assumes "from_raw db raw tz = Inr w"
    "case raw of RawDict d \<Rightarrow> True | RawArray a \<Rightarrow> length (np_values a) = prod_list (np_shape a)"
  shows "valid_grid (schedule w)"
proof (cases raw)
  case (RawDict d)
  then obtain g where "to_matrix d = Inr g" "schedule w = BoolArray g"
    using from_raw_dict_schedule assms(1) by blast
  then show ?thesis by (simp add: to_matrix_valid)
next
  case (RawArray a)
  then have "schedule w = a" using from_raw_array_schedule assms(1) by blast
  then show ?thesis using from_raw_shape[OF assms(1)] assms(2) RawArray
    by (simp add: valid_grid_def)
qed

text \<open>
  A setter on a grid of bools: it raises what \<^verbatim>\<open>to_vector\<close> raises and leaves the
  schedule as it was, or it replaces the day by the vector and returns.
\<close>

lemma set_day_schedule_cases:
  assumes "schedule w = BoolArray g" "valid_ndarray g" "d < 7"
  shows "(\<exists>e. to_vector s = Inl e \<and> set_day_schedule w (int d) s = (w, Some e))
       \<or> (\<exists>v. to_vector s = Inr v \<and> length v = 1440
             \<and> set_day_schedule w (int d) s
               = (w\<lparr>schedule := BoolArray (g\<lparr>cells := take (d * 1440) (cells g) @ v
                      @ drop (Suc d * 1440) (cells g)\<rparr>)\<rparr>, None))"
proof (cases "to_vector s")
  case (Inl e)
  then show ?thesis by (simp add: set_day_schedule_def)
next
  case (Inr v)
  have lv: "length v = 1440" using Inr by (rule to_vector_length)
  let ?g = "g\<lparr>cells := take (d * 1440) (cells g) @ v @ drop (Suc d * 1440) (cells g)\<rparr>"
  have "valid_ndarray ?g" using assms(2,3) lv by (rule valid_ndarray_splice)
  then have "validate (w\<lparr>schedule := BoolArray ?g\<rparr>) = None" by (simp add: validate_valid)
  then show ?thesis
    using Inr lv setitem_day[OF assms(2,3) lv] assms(1) by (simp add: set_day_schedule_def)
qed

lemma setitem_cast_valid:
  assumes "valid_ndarray a" "d < 7" "length v = 1440"
  shows "\<exists>a'. setitem a (int d) (astype dt (reshape_24_60 v)) = Inr a' \<and> valid_ndarray a'"
proof -
  let ?v = "map (from_bool dt) v"
  have "setitem a (int d) (astype dt (reshape_24_60 v))
        = Inr (a\<lparr>cells := take (d * 1440) (cells a) @ ?v @ drop (Suc d * 1440) (cells a)\<rparr>)"
    using assms setitem_rows[of a "[24, 60]" d "astype dt (reshape_24_60 v)"]
    by (simp add: valid_ndarray_def reshape_24_60_def)
  moreover have "valid_ndarray
       (a\<lparr>cells := take (d * 1440) (cells a) @ ?v @ drop (Suc d * 1440) (cells a)\<rparr>)"
    using assms by (intro valid_ndarray_splice) simp_all
  ultimately show ?thesis by blast
qed

lemma np_setitem_valid:
  assumes "valid_grid a" "d < 7" "length v = 1440"
  shows "\<exists>a'. np_setitem a (int d) (reshape_24_60 v) = Inr a' \<and> valid_grid a'"
proof (cases a)
  case (BoolArray b)
  then show ?thesis using assms setitem_cast_valid[of b d v bool_dtype] by auto
next
  case (IntArray b)
  then show ?thesis using assms setitem_cast_valid[of b d v int_dtype] by auto
next
  case (FloatArray b)
  then show ?thesis using assms setitem_cast_valid[of b d v float_dtype] by auto
qed

lemma set_day_schedule_valid:
  assumes "valid_grid (schedule w)" "d < 7" "set_day_schedule w (int d) s = (w', r)"
  shows "valid_grid (schedule w')"
proof (cases "to_vector s")
  case (Inl e)
  then show ?thesis using assms by (simp add: set_day_schedule_def)
next
  case (Inr v)
  have lv: "length v = 1440" using Inr by (rule to_vector_length)
  from np_setitem_valid[OF assms(1,2) lv] obtain a' where
    "np_setitem (schedule w) (int d) (reshape_24_60 v) = Inr a'" "valid_grid a'" by blast
  then show ?thesis using Inr assms(3) by (auto simp add: set_day_schedule_def)
qed

lemma set_days_valid:
  "valid_grid (schedule w) \<Longrightarrow> list_all (\<lambda>d. d < 7) days \<Longrightarrow> set_days w days s = Inr w' \<Longrightarrow>
   valid_grid (schedule w')"
proof (induction days arbitrary: w)
  case Nil
  then show ?case by simp
next
  case (Cons day rest)
  from Cons.prems obtain w1 where
    1: "set_day_schedule w (int day) s = (w1, None)" and 2: "set_days w1 rest s = Inr w'"
    by (auto split: prod.splits option.splits)
  have "valid_grid (schedule w1)"
    using set_day_schedule_valid[OF Cons.prems(1) _ 1] Cons.prems(2) by simp
  from Cons.IH[OF this _ 2] Cons.prems(2) show ?case by simp
qed

lemma day_value_le: "day_value d \<le> 6"
  by (cases d) simp_all

lemma from_to_valid: "from_to day_start day_end s = Inr w \<Longrightarrow> valid_grid (schedule w)"
proof -
  assume a: "from_to day_start day_end s = Inr w"
  have "list_all (\<lambda>d. d < 7) [day_value day_start..<day_value day_end + 1]"
    using day_value_le[of day_end] by (auto simp add: list_all_iff)
  from set_days_valid[OF valid_grid_init this] a show ?thesis by (simp add: from_to_def)
qed

text \<open>
  The loop of \<^verbatim>\<open>shift_start\<close> leaves the shape and the number of cells as they were,
  however far it gets.
\<close>

lemma setitem_row_size:
  assumes "shape a = [7, 1440]" "length (cells a) = 10080"
    "setitem a i \<lparr>shape = [length xs], cells = xs\<rparr> = Inr a'"
  shows "shape a' = [7, 1440] \<and> length (cells a') = 10080"
proof -
  from assms(1,3) obtain j where j: "axis_index 7 i = Inr j"
    by (auto simp add: setitem_def split: sum.splits)
  then have j7: "j < 7" by (auto simp add: axis_index_def Let_def split: if_splits)
  from assms(1,3) j have l: "length xs = 1440"
    and a': "a' = a\<lparr>cells := take (j * 1440) (cells a) @ xs @ drop (Suc j * 1440) (cells a)\<rparr>"
    by (auto simp add: setitem_def split: if_splits)
  show ?thesis using assms(1,2) j7 l unfolding a' by simp
qed

lemma shift_days_size:
  "shape ds = [7, 1440] \<Longrightarrow> length (cells ds) = 10080 \<Longrightarrow>
   shift_days memory dt n ds days = (ds', r) \<Longrightarrow>
   shape ds' = [7, 1440] \<and> length (cells ds') = 10080"
proof (induction days arbitrary: ds)
  case Nil
  then show ?case by simp
next
  case (Cons day rest)
  show ?case
  proof (cases "np_zeros_sized memory n")
    case (Inl e)
    then show ?thesis using Cons.prems by simp
  next
    case zeros: (Inr zeros)
    show ?thesis
    proof (cases "getitem ds (int day)")
      case (Inl e)
      then show ?thesis using Cons.prems zeros by simp
    next
      case row: (Inr row)
      let ?c = "map (from_bool dt) zeros @ cells row"
      let ?s = "take (slice_bound (length ?c) (- int n)) ?c"
      show ?thesis
      proof (cases "np_and dt (cells row) ?s")
        case (Inl e)
        then show ?thesis using Cons.prems zeros row by (simp add: Let_def)
      next
        case masked: (Inr masked)
        show ?thesis
        proof (cases "setitem ds (int day) \<lparr>shape = [length masked], cells = masked\<rparr>")
          case (Inl e)
          then show ?thesis using Cons.prems zeros row masked by (simp add: Let_def)
        next
          case (Inr ds1)
          from setitem_row_size[OF Cons.prems(1,2) Inr]
          have 1: "shape ds1 = [7, 1440]" "length (cells ds1) = 10080" by simp_all
          have "shift_days memory dt n ds1 rest = (ds', r)"
            using Cons.prems(3) zeros row masked Inr by (simp add: Let_def)
          from Cons.IH[OF 1 this] show ?thesis .
        qed
      qed
    qed
  qed
qed

lemma shift_grid_valid:
  assumes "valid_ndarray a" "shift_grid memory dt n a = (g, r)"
  shows "valid_ndarray g"
proof -
  let ?ds = "\<lparr>shape = [7, 1440], cells = cells a\<rparr>"
  have rs: "np_reshape a [7, 24 * 60] = Inr ?ds"
    using assms(1) by (simp add: np_reshape_def valid_ndarray_def)
  obtain ds' r' where sd: "shift_days memory dt n ?ds [0..<7] = (ds', r')"
    by (cases "shift_days memory dt n ?ds [0..<7]")
  have "shape ?ds = [7, 1440]" "length (cells ?ds) = 10080"
    using assms(1) by (simp_all add: valid_ndarray_def)
  from shift_days_size[OF this sd] have l: "length (cells ds') = 10080" by simp
  have sh: "shape a = [7, 24, 60]" using assms(1) by (simp add: valid_ndarray_def)
  show ?thesis
    using assms(2) rs sd l sh
    by (auto simp add: shift_grid_def np_reshape_def valid_ndarray_def
        split: option.splits if_splits)
qed

lemma shift_start_valid:
  assumes v: "valid_grid (schedule w)" and run: "shift_start memory w hours minutes = (w', r)"
  shows "valid_grid (schedule w')"
proof (cases "hours * 60 + minutes < 0")
  case True
  then show ?thesis using v run by (simp add: shift_start_def)
next
  case False
  let ?n = "nat (hours * 60 + minutes)"
  show ?thesis
  proof (cases "schedule w")
    case (BoolArray a)
    obtain g e where sg: "shift_grid memory bool_dtype ?n a = (g, e)"
      by (cases "shift_grid memory bool_dtype ?n a")
    have "valid_ndarray g" using shift_grid_valid[OF _ sg] v BoolArray by simp
    then show ?thesis using run False BoolArray sg
      by (auto simp add: shift_start_def Let_def split: option.splits)
  next
    case (IntArray a)
    obtain g e where sg: "shift_grid memory int_dtype ?n a = (g, e)"
      by (cases "shift_grid memory int_dtype ?n a")
    have "valid_ndarray g" using shift_grid_valid[OF _ sg] v IntArray by simp
    then show ?thesis using run False IntArray sg
      by (auto simp add: shift_start_def Let_def split: option.splits)
  next
    case (FloatArray a)
    obtain g e where sg: "shift_grid memory float_dtype ?n a = (g, e)"
      by (cases "shift_grid memory float_dtype ?n a")
    have "valid_ndarray g" using shift_grid_valid[OF _ sg] v FloatArray by simp
    then show ?thesis using run False FloatArray sg
      by (auto simp add: shift_start_def Let_def split: option.splits)
  qed
qed

lemma clone_schedule: "clone db w = Inr w' \<Longrightarrow> schedule w' = schedule w"
  by (auto simp add: clone_def init_def Let_def split: if_splits option.splits sum.splits)

lemma calendar_schedule: "with_working_days_calendar w c = (w', r) \<Longrightarrow> schedule w' = schedule w"
  by (cases c) auto

lemma np_invert_valid: "valid_grid a \<Longrightarrow> np_invert a = Inr a' \<Longrightarrow> valid_grid a'"
  by (cases a) (auto simp add: valid_ndarray_def)

lemma returning_schedule:
  "returning (for_timezone db w zone) = Inr w' \<Longrightarrow> schedule w' = schedule w"
  by (auto simp add: returning_def dest: for_timezone_schedule split: prod.splits option.splits)

lemma invert_valid:
  assumes "valid_grid (schedule w)" "invert db w = Inr w'"
  shows "valid_grid (schedule w')"
proof -
  from assms(2) obtain a w1 where
    0: "np_invert (schedule w) = Inr a"
    and 1: "from_raw db (RawArray a) ''UTC'' = Inr w1"
    and 2: "returning (for_timezone db w1 (timezone w)) = Inr w'"
    by (auto simp add: invert_def split: sum.splits)
  have "valid_grid a" using assms(1) 0 by (rule np_invert_valid)
  then have "valid_grid (schedule w1)" using from_raw_array_schedule[OF 1] by simp
  then show ?thesis using returning_schedule[OF 2] by simp
qed

lemma always_valid: "always db = Inr w \<Longrightarrow> valid_grid (schedule w)"
proof -
  assume a: "always db = Inr w"
  then obtain w1 where
    1: "from_raw db (RawArray (BoolArray (np_ones [7, 24, 60]))) ''UTC'' = Inr w1"
    and 2: "returning (for_timezone db w1 (Some ''UTC'')) = Inr w"
    by (auto simp add: always_def split: sum.splits)
  have "valid_grid (schedule w1)"
    using from_raw_array_schedule[OF 1] by (simp add: valid_ndarray_def np_ones_def)
  then show ?thesis using returning_schedule[OF 2] by simp
qed

lemma never_valid: "never db = Inr w \<Longrightarrow> valid_grid (schedule w)"
  using returning_schedule[of db init "Some ''UTC''" w] valid_grid_init by (simp add: never_def)

lemma setters_unfold:
  "monday w s = set_day_schedule w (int 0) s"
  "tuesday w s = set_day_schedule w (int 1) s"
  "wednesday w s = set_day_schedule w (int 2) s"
  "thursday w s = set_day_schedule w (int 3) s"
  "friday w s = set_day_schedule w (int 4) s"
  "saturday w s = set_day_schedule w (int 5) s"
  "sunday w s = set_day_schedule w (int 6) s"
  by (simp_all add: monday_def tuesday_def wednesday_def thursday_def friday_def saturday_def
      sunday_def)

text \<open>
  Every schedule a caller can hold has a grid of shape \<open>(7, 24, 60)\<close> with its
  \<open>7 * 24 * 60\<close> cells, whatever the dtype of the cells.
\<close>

lemma reachable_valid: "reachable db w \<Longrightarrow> valid_grid (schedule w)"
proof (induction rule: reachable.induct)
  case reach_init
  show ?case by (rule valid_grid_init)
next
  case (reach_never w)
  then show ?case by (rule never_valid)
next
  case (reach_always w)
  then show ?case by (rule always_valid)
next
  case (reach_from_raw_dict d tz w)
  then show ?case using from_raw_valid[of db "RawDict d" tz w] by simp
next
  case (reach_from_raw_array a tz w)
  then show ?case using from_raw_valid[of db "RawArray a" tz w] by simp
next
  case (reach_from_to day_start day_end day_sched w)
  then show ?case by (rule from_to_valid)
next
  case (reach_invert w w')
  then show ?case using invert_valid by blast
next
  case (reach_clone w w')
  then show ?case using clone_schedule by fastforce
next
  case (reach_for_timezone w zone w' r)
  then show ?case using for_timezone_schedule by fastforce
next
  case (reach_calendar w c w' r)
  then show ?case using calendar_schedule by fastforce
next
  case (reach_monday w day_sched w' r)
  then show ?case using set_day_schedule_valid[of w 0 day_sched w' r] by (simp add: monday_def)
next
  case (reach_tuesday w day_sched w' r)
  then show ?case using set_day_schedule_valid[of w 1 day_sched w' r] by (simp add: tuesday_def)
next
  case (reach_wednesday w day_sched w' r)
  then show ?case using set_day_schedule_valid[of w 2 day_sched w' r] by (simp add: wednesday_def)
next
  case (reach_thursday w day_sched w' r)
  then show ?case using set_day_schedule_valid[of w 3 day_sched w' r] by (simp add: thursday_def)
next
  case (reach_friday w day_sched w' r)
  then show ?case using set_day_schedule_valid[of w 4 day_sched w' r] by (simp add: friday_def)
next
  case (reach_saturday w day_sched w' r)
  then show ?case using set_day_schedule_valid[of w 5 day_sched w' r] by (simp add: saturday_def)
next
  case (reach_sunday w day_sched w' r)
  then show ?case using set_day_schedule_valid[of w 6 day_sched w' r] by (simp add: sunday_def)
next
  case (reach_shift_start w memory hours minutes w' r)
  then show ?case using shift_start_valid by blast
qed

lemma set_day_schedule_revalidates:
  "set_day_schedule w d s = (w', None) \<Longrightarrow>
   np_shape (schedule w') = [7, 24, 60]
   \<and> list_all (\<lambda>x. 0 \<le> x \<and> x \<le> 1) (np_values (schedule w'))"
  by (auto simp add: set_day_schedule_def validate_iff split: sum.splits)

lemma shift_start_revalidates:
  "shift_start memory w hours minutes = (w', None) \<Longrightarrow>
   np_shape (schedule w') = [7, 24, 60]
   \<and> list_all (\<lambda>x. 0 \<le> x \<and> x \<le> 1) (np_values (schedule w'))"
  by (auto simp add: shift_start_def Let_def validate_iff
      split: sum.splits if_splits prod.splits option.splits)

subsection \<open>Inverting\<close>

lemma invert_known:
  assumes "schedule w = BoolArray g" "shape g = [7, 24, 60]" "db ''UTC'' = Some u"
    "timezone w = Some name" "db name = Some z"
  shows "invert db w = Inr \<lparr>schedule = BoolArray (g\<lparr>cells := map Not (cells g)\<rparr>),
                            timezone = Some name, pytz = Some z, is_working_day_fun = None\<rparr>"
proof -
  let ?g = "g\<lparr>cells := map Not (cells g)\<rparr>"
  have "shape ?g = [7, 24, 60]" using assms(2) by simp
  with assms(3) have "from_raw db (RawArray (BoolArray ?g)) ''UTC''
      = Inr \<lparr>schedule = BoolArray ?g, timezone = Some ''UTC'', pytz = Some u,
             is_working_day_fun = None\<rparr>"
    by (rule from_raw_bool_array)
  then show ?thesis
    using assms(1,4,5) by (simp add: invert_def for_timezone_known returning_def)
qed

text \<open>
  Without a timezone \<^verbatim>\<open>invert\<close> never returns: whatever comes before, the last call
  is \<^verbatim>\<open>for_timezone(None)\<close>, which raises. On a grid of bools of the right shape
  that is the exception raised.
\<close>

lemma invert_unset_timezone:
  assumes "timezone w = None"
  shows "\<exists>e. invert db w = Inl e"
  using assms
  by (auto simp add: invert_def returning_def for_timezone_def pytz_timezone_def Let_def
      split: sum.splits)

lemma invert_unset_timezone_bool:
  assumes "timezone w = None" "schedule w = BoolArray g" "shape g = [7, 24, 60]"
    "db ''UTC'' = Some u"
  shows "invert db w = Inl UnknownTimeZoneError"
proof -
  let ?g = "g\<lparr>cells := map Not (cells g)\<rparr>"
  have "shape ?g = [7, 24, 60]" using assms(3) by simp
  with assms(4) have "from_raw db (RawArray (BoolArray ?g)) ''UTC''
      = Inr \<lparr>schedule = BoolArray ?g, timezone = Some ''UTC'', pytz = Some u,
             is_working_day_fun = None\<rparr>"
    by (rule from_raw_bool_array)
  then show ?thesis
    using assms(1,2)
    by (simp add: invert_def for_timezone_def pytz_timezone_def returning_def)
qed

text \<open>
  On a grid of integers \<^verbatim>\<open>~\<close> is the bitwise complement, which makes \<open>-1\<close> of 0 and
  \<open>-2\<close> of 1: the inverted grid does not pass \<^verbatim>\<open>_validate\<close>. On a grid of floats
  \<^verbatim>\<open>~\<close> raises.
\<close>

lemma invert_int:
  assumes "schedule w = IntArray a" "valid_ndarray a" "list_all (\<lambda>x. 0 \<le> x) (cells a)"
    "db ''UTC'' = Some u"
  shows "invert db w = Inl (AssertionError ''weekly schedule should have positive values'')"
proof -
  let ?a = "a\<lparr>cells := map NOT (cells a)\<rparr>"
  let ?w = "\<lparr>schedule = IntArray ?a, timezone = Some ''UTC'', pytz = Some u,
             is_working_day_fun = None\<rparr>"
  have ne: "cells a \<noteq> []" using assms(2) by (auto simp add: valid_ndarray_def)
  then obtain x where x: "x \<in> set (cells a)" by (cases "cells a") auto
  then have "0 \<le> x" using assms(3) by (simp add: list_all_iff)
  then have neg: "NOT x < 0" by simp
  have "\<not> list_all (\<lambda>y. (0::rat) \<le> y) (map of_int (map NOT (cells a)))"
  proof
    assume "list_all (\<lambda>y. (0::rat) \<le> y) (map of_int (map NOT (cells a)))"
    then have "(0::rat) \<le> of_int (NOT x)" using x by (simp add: list_all_iff)
    then show False using neg by simp
  qed
  then have "validate ?w = Some (AssertionError ''weekly schedule should have positive values'')"
    using assms(2) by (simp add: validate_def valid_ndarray_def)
  then show ?thesis
    using assms(1,4) by (simp add: invert_def from_raw_def for_timezone_known init_def)
qed

lemma invert_float: "schedule w = FloatArray a \<Longrightarrow> invert db w = Inl TypeError"
  by (simp add: invert_def)

subsection \<open>The change points of a day vector\<close>

lemma rolled_nth:
  assumes "0 < i" "i < length v"
  shows "(np_roll1 v)[0 := v ! 0] ! i = v ! (i - 1)"
proof -
  have ne: "v \<noteq> []" using assms by auto
  obtain j where j: "i = Suc j" using assms(1) by (cases i) auto
  have "(np_roll1 v)[0 := v ! 0] ! i = (last v # butlast v) ! i"
    using assms ne by (simp add: np_roll1_def)
  also have "\<dots> = butlast v ! j" using j by simp
  also have "\<dots> = v ! j" using assms j by (simp add: nth_butlast)
  finally show ?thesis using j by simp
qed

lemma rolled_0: "v \<noteq> [] \<Longrightarrow> (np_roll1 v)[0 := v ! 0] ! 0 = v ! 0"
  by (simp add: np_roll1_def)

lemma changes_filter:
  assumes "v \<noteq> []"
  shows "filter (\<lambda>i. (np_roll1 v)[0 := v ! 0] ! i \<noteq> v ! i) [0..<length v] = changes v"
proof -
  have u: "[0..<length v] = 0 # [1..<length v]" using assms by (simp add: upt_rec)
  have "filter (\<lambda>i. (np_roll1 v)[0 := v ! 0] ! i \<noteq> v ! i) [1..<length v] = changes v"
    unfolding changes_def
  proof (rule filter_cong[OF refl])
    fix x assume "x \<in> set [1..<length v]"
    then have "0 < x" "x < length v" by auto
    then show "((np_roll1 v)[0 := v ! 0] ! x \<noteq> v ! x) = (v ! (x - 1) \<noteq> v ! x)"
      by (simp only: rolled_nth)
  qed
  moreover have "\<not> ((np_roll1 v)[0 := v ! 0] ! 0 \<noteq> v ! 0)"
    using rolled_0[OF assms] by simp
  ultimately show ?thesis unfolding u by (simp only: filter.simps if_False)
qed

lemma slot_indexes_eq:
  assumes "v \<noteq> []"
  shows "slot_indexes bool_dtype v
         = (if v ! 0 then [0] else []) @ changes v
           @ (if v ! (length v - 1) then [24 * 60] else [])"
proof -
  have l: "last v = v ! (length v - 1)" using assms by (rule last_conv_nth)
  have "slot_indexes bool_dtype v
        = (if last v then (if v ! 0 then 0 # changes v else changes v) @ [24 * 60]
           else (if v ! 0 then 0 # changes v else changes v))"
    unfolding slot_indexes_def Let_def changes_filter[OF assms] bool_dtype_simps ..
  then show ?thesis unfolding l by (cases "v ! 0"; cases "v ! (length v - 1)") simp_all
qed

lemma changes_props:
  "sorted (changes v)" "distinct (changes v)"
  "x \<in> set (changes v) \<longleftrightarrow> 0 < x \<and> x < length v \<and> v ! (x - 1) \<noteq> v ! x"
proof -
  show "sorted (changes v)" unfolding changes_def by (rule sorted_wrt_filter) simp
qed (auto simp add: changes_def)

lemma slot_indexes_sorted:
  assumes "length v = 24 * 60"
  shows "sorted (slot_indexes bool_dtype v) \<and> distinct (slot_indexes bool_dtype v)"
proof -
  have ne: "v \<noteq> []" using assms by auto
  have r: "\<forall>x\<in>set (changes v). 0 < x \<and> x < 24 * 60"
    using assms by (simp add: changes_props(3))
  show ?thesis
    unfolding slot_indexes_eq[OF ne] using changes_props(1,2)[of v] r
    by (auto simp add: sorted_append less_imp_le)
qed

lemma slot_indexes_set:
  assumes "length v = 24 * 60"
  shows "x \<in> set (slot_indexes bool_dtype v)
         \<longleftrightarrow> x \<le> 24 * 60 \<and> ((0 < x \<and> v ! (x - 1)) \<noteq> (x < 24 * 60 \<and> v ! x))"
proof -
  have ne: "v \<noteq> []" using assms by auto
  have m: "x \<in> set (changes v) \<longleftrightarrow> 0 < x \<and> x < 24 * 60 \<and> v ! (x - 1) \<noteq> v ! x"
    using assms by (simp add: changes_props(3))
  have l: "length v - 1 = 24 * 60 - 1" using assms by simp
  consider "x = 0" | "0 < x" "x < 24 * 60" | "x = 24 * 60" | "24 * 60 < x" by linarith
  then show ?thesis
  proof cases
    case 1
    then show ?thesis unfolding slot_indexes_eq[OF ne] using m by auto
  next
    case 2
    then show ?thesis unfolding slot_indexes_eq[OF ne] using m by auto
  next
    case 3
    then show ?thesis unfolding slot_indexes_eq[OF ne] l using m by auto
  next
    case 4
    then show ?thesis unfolding slot_indexes_eq[OF ne] using m by auto
  qed
qed

text \<open>A list of change points is determined by the set of its members.\<close>

lemma slot_indexes_unique:
  assumes "length v = 24 * 60" "sorted xs" "distinct xs"
    and "\<And>x. x \<in> set xs \<longleftrightarrow> x \<le> 24 * 60 \<and> ((0 < x \<and> v ! (x - 1)) \<noteq> (x < 24 * 60 \<and> v ! x))"
  shows "slot_indexes bool_dtype v = xs"
proof (rule sorted_distinct_set_unique)
  show "set (slot_indexes bool_dtype v) = set xs"
    using slot_indexes_set[OF assms(1)] assms(4) by blast
qed (use assms slot_indexes_sorted in auto)

subsection \<open>The cells a tuple of slots sets\<close>

lemma define_slot_Inr:
  "define_slot slots s e = Inr v \<Longrightarrow>
   v = slice_fill slots (fst s * 60 + snd s) (fst e * 60 + snd e)"
  by (auto simp add: define_slot_def split: if_splits)

lemma define_slots_nth:
  "define_slots slots ivs = Inr v \<Longrightarrow> i < length slots \<Longrightarrow>
   v ! i = (slots ! i \<or>
            list_ex (\<lambda>(s, e). slice_bound (length slots) (fst s * 60 + snd s) \<le> i
                             \<and> i < slice_bound (length slots) (fst e * 60 + snd e)) ivs)"
proof (induction ivs arbitrary: slots)
  case Nil
  then show ?case by simp
next
  case (Cons iv ivs)
  obtain s e where iv: "iv = (s, e)" by (cases iv)
  from Cons.prems iv obtain slots' where
    1: "define_slot slots s e = Inr slots'" and 2: "define_slots slots' ivs = Inr v"
    by (auto split: sum.splits)
  have l: "length slots' = length slots" using 1 by (rule define_slot_length)
  have n: "slots' ! i = ((slice_bound (length slots) (fst s * 60 + snd s) \<le> i
                         \<and> i < slice_bound (length slots) (fst e * 60 + snd e)) \<or> slots ! i)"
    using define_slot_Inr[OF 1] Cons.prems(2) by (simp add: nth_slice_fill)
  from Cons.IH[OF 2] Cons.prems(2) l n iv show ?case by auto
qed

lemma clock_time_index:
  assumes "clock_time t"
  shows "minute_index t \<le> 1440" and "slice_bound 1440 (fst t * 60 + snd t) = minute_index t"
    and "int (minute_index t) = fst t * 60 + snd t"
    and "tuple_le (0, 0) t" and "tuple_le t (24, 0)"
proof -
  obtain h m where t: "t = (h, m)" by (cases t)
  from assms t have r: "0 \<le> h" "0 \<le> m" "m < 60" "h < 24 \<or> (h = 24 \<and> m = 0)"
    by (simp_all add: clock_time_def)
  then have b: "0 \<le> h * 60 + m" "h * 60 + m \<le> 1440" by auto
  show "minute_index t \<le> 1440" using b t by (simp add: minute_index_def)
  show "slice_bound 1440 (fst t * 60 + snd t) = minute_index t"
    using b t by (simp add: slice_bound_def minute_index_def)
  show "int (minute_index t) = fst t * 60 + snd t" using b t by (simp add: minute_index_def)
  show "tuple_le (0, 0) t" using r t by auto
  show "tuple_le t (24, 0)" using r t by auto
qed

lemma clock_time_lt:
  assumes "clock_time s" "clock_time e" "minute_index s < minute_index e"
  shows "tuple_lt s e"
proof -
  obtain a b where s: "s = (a, b)" by (cases s)
  obtain c d where e: "e = (c, d)" by (cases e)
  from assms(1,2) s e have r: "0 \<le> b" "b < 60" "0 \<le> d" "d < 60"
    by (simp_all add: clock_time_def)
  have "a * 60 + b < c * 60 + d"
    using assms(3) clock_time_index(3)[OF assms(1)] clock_time_index(3)[OF assms(2)] s e
    by simp
  then have "a < c \<or> (a = c \<and> b < d)" using r by auto
  then show ?thesis using s e by simp
qed

lemma ordered_slots_bounds:
  "ordered_slots lo ivs \<Longrightarrow>
   sorted (flat_bounds ivs) \<and> distinct (flat_bounds ivs)
   \<and> (\<forall>x\<in>set (flat_bounds ivs). lo \<le> x \<and> x \<le> 1440)"
proof (induction ivs arbitrary: lo)
  case Nil
  then show ?case by simp
next
  case (Cons iv ivs)
  obtain s e where iv: "iv = (s, e)" by (cases iv)
  from Cons.prems iv have p: "clock_time s" "clock_time e" "lo \<le> minute_index s"
    "minute_index s < minute_index e" "ordered_slots (Suc (minute_index e)) ivs" by simp_all
  from Cons.IH[OF p(5)] have ih: "sorted (flat_bounds ivs)" "distinct (flat_bounds ivs)"
    "\<forall>x\<in>set (flat_bounds ivs). Suc (minute_index e) \<le> x \<and> x \<le> 1440" by simp_all
  show ?case using iv p(3,4) ih clock_time_index(1)[OF p(1)] clock_time_index(1)[OF p(2)]
    by (auto simp add: less_imp_le)
qed

lemma covered_Cons:
  "covered ((s, e) # ivs) i = ((minute_index s \<le> i \<and> i < minute_index e) \<or> covered ivs i)"
  by (simp add: covered_def)

lemma ordered_slots_covered:
  "ordered_slots lo ivs \<Longrightarrow> covered ivs i \<Longrightarrow> lo \<le> i \<and> i < 1440"
proof (induction ivs arbitrary: lo)
  case Nil
  then show ?case by (simp add: covered_def)
next
  case (Cons iv ivs)
  obtain s e where iv: "iv = (s, e)" by (cases iv)
  from Cons.prems(1) iv have p: "clock_time s" "clock_time e" "lo \<le> minute_index s"
    "minute_index s < minute_index e" "ordered_slots (Suc (minute_index e)) ivs" by simp_all
  from Cons.prems(2) iv consider "minute_index s \<le> i" "i < minute_index e" | "covered ivs i"
    by (auto simp add: covered_Cons)
  then show ?case
  proof cases
    case 1
    then show ?thesis using p(3) clock_time_index(1)[OF p(2)] by simp
  next
    case 2
    from Cons.IH[OF p(5) 2] p(3,4) show ?thesis by simp
  qed
qed

text \<open>
  With ordered slots, the minutes at which being covered changes are exactly the bounds
  of the slots.
\<close>

lemma ordered_slots_edges:
  "ordered_slots lo ivs \<Longrightarrow>
   ((0 < x \<and> covered ivs (x - 1)) \<noteq> covered ivs x) \<longleftrightarrow> x \<in> set (flat_bounds ivs)"
proof (induction ivs arbitrary: lo)
  case Nil
  then show ?case by (simp add: covered_def)
next
  case (Cons iv ivs)
  obtain s e where iv: "iv = (s, e)" by (cases iv)
  from Cons.prems(1) iv have p: "clock_time s" "clock_time e" "lo \<le> minute_index s"
    "minute_index s < minute_index e" "ordered_slots (Suc (minute_index e)) ivs" by simp_all
  let ?a = "minute_index s" and ?b = "minute_index e"
  have later: "covered ivs i \<Longrightarrow> Suc ?b \<le> i" for i
    using ordered_slots_covered[OF p(5)] by simp
  have bounds: "y \<in> set (flat_bounds ivs) \<Longrightarrow> Suc ?b \<le> y" for y
    using ordered_slots_bounds[OF p(5)] by simp
  note ih = Cons.IH[OF p(5)]
  consider "x \<le> ?b" | "?b < x" by linarith
  then show ?case
  proof cases
    case 1
    have n1: "\<not> covered ivs x" using later[of x] 1 by auto
    have n2: "\<not> covered ivs (x - 1)" using later[of "x - 1"] 1 by auto
    have n3: "x \<notin> set (flat_bounds ivs)" using bounds[of x] 1 by auto
    have "((0 < x \<and> ?a \<le> x - 1 \<and> x - 1 < ?b) \<noteq> (?a \<le> x \<and> x < ?b)) \<longleftrightarrow> x = ?a \<or> x = ?b"
      using p(4) by auto
    then show ?thesis using iv n1 n2 n3 by (simp add: covered_Cons)
  next
    case 2
    have "\<not> (?a \<le> x - 1 \<and> x - 1 < ?b)" "\<not> (?a \<le> x \<and> x < ?b)" "x \<noteq> ?a" "x \<noteq> ?b"
      using 2 p(4) by auto
    then show ?thesis using ih unfolding iv covered_Cons flat_bounds.simps by auto
  qed
qed

subsection \<open>Decoding the vector of ordered slots\<close>

lemma define_slots_ok:
  "ordered_slots lo ivs \<Longrightarrow> \<exists>v. define_slots slots ivs = Inr v"
proof (induction ivs arbitrary: lo slots)
  case Nil
  then show ?case by simp
next
  case (Cons iv ivs)
  obtain s e where iv: "iv = (s, e)" by (cases iv)
  from Cons.prems iv have p: "clock_time s" "clock_time e"
    "minute_index s < minute_index e" "ordered_slots (Suc (minute_index e)) ivs" by simp_all
  have "define_slot slots s e = Inr (slice_fill slots (fst s * 60 + snd s) (fst e * 60 + snd e))"
    using clock_time_index(4,5)[OF p(1)] clock_time_index(4,5)[OF p(2)]
      clock_time_lt[OF p(1,2,3)]
    by (simp add: define_slot_def)
  with Cons.IH[OF p(4)] iv show ?case by simp
qed

lemma ordered_slots_list_ex:
  "ordered_slots lo ivs \<Longrightarrow>
   list_ex (\<lambda>(s, e). slice_bound 1440 (fst s * 60 + snd s) \<le> i
                    \<and> i < slice_bound 1440 (fst e * 60 + snd e)) ivs
   = covered ivs i"
proof (induction ivs arbitrary: lo)
  case Nil
  then show ?case by (simp add: covered_def)
next
  case (Cons iv ivs)
  obtain s e where iv: "iv = (s, e)" by (cases iv)
  from Cons.prems iv have p: "clock_time s" "clock_time e"
    "ordered_slots (Suc (minute_index e)) ivs" by simp_all
  from Cons.IH[OF p(3)] iv clock_time_index(2)[OF p(1)] clock_time_index(2)[OF p(2)]
  show ?case by (simp add: covered_Cons)
qed

lemma ordered_slots_vector:
  assumes "ordered_slots lo ivs"
  shows "\<exists>v. define_slots (replicate 1440 False) ivs = Inr v \<and> length v = 1440
           \<and> (\<forall>i<1440. v ! i = covered ivs i)"
proof -
  from define_slots_ok[OF assms] obtain v where
    v: "define_slots (replicate 1440 False) ivs = Inr v" by blast
  have l: "length v = 1440" using define_slots_length[OF v] by simp
  have "v ! i = covered ivs i" if "i < 1440" for i
    using define_slots_nth[OF v, of i] that ordered_slots_list_ex[OF assms, of i] by simp
  with v l show ?thesis by blast
qed

lemma ordered_slots_indexes:
  assumes "ordered_slots 0 ivs" "length v = 24 * 60" "\<forall>i<1440. v ! i = covered ivs i"
  shows "slot_indexes bool_dtype v = flat_bounds ivs"
proof (rule slot_indexes_unique[OF assms(2)])
  from ordered_slots_bounds[OF assms(1)]
  show "sorted (flat_bounds ivs)" "distinct (flat_bounds ivs)" by simp_all
next
  fix x
  show "x \<in> set (flat_bounds ivs)
        \<longleftrightarrow> x \<le> 24 * 60 \<and> ((0 < x \<and> v ! (x - 1)) \<noteq> (x < 24 * 60 \<and> v ! x))"
  proof (cases "x \<le> 1440")
    case True
    have a: "(x < 24 * 60 \<and> v ! x) = covered ivs x"
      using assms(3) ordered_slots_covered[OF assms(1), of x] by auto
    have b: "(0 < x \<and> v ! (x - 1)) = (0 < x \<and> covered ivs (x - 1))"
      using assms(3) True by auto
    show ?thesis using ordered_slots_edges[OF assms(1), of x] True a b by simp
  next
    case False
    then show ?thesis using ordered_slots_bounds[OF assms(1)] by auto
  qed
qed

lemma group_slots_pair:
  "even idx \<Longrightarrow>
   group_slots idx None None (a # b # rest)
   = (time_of a, time_of b) # group_slots (Suc (Suc idx)) None None rest"
  by (simp add: Let_def time_of_def even_iff_mod_2_eq_zero mod_Suc)

lemma time_of_minute_index: "clock_time t \<Longrightarrow> time_of (minute_index t) = t"
proof -
  assume c: "clock_time t"
  obtain h m where t: "t = (h, m)" by (cases t)
  from c t have r: "0 \<le> h" "0 \<le> m" "m < 60" by (simp_all add: clock_time_def)
  define k where "k = nat h"
  define j where "j = nat m"
  have hk: "h = int k" "m = int j" "j < 60" using r by (simp_all add: k_def j_def)
  have "minute_index t = k * 60 + j" using t hk by (simp add: minute_index_def nat_add_distrib nat_mult_distrib)
  then show ?thesis using hk t by (simp add: time_of_def)
qed

lemma group_slots_flat:
  "ordered_slots lo ivs \<Longrightarrow> even idx \<Longrightarrow>
   group_slots idx None None (flat_bounds ivs) = ivs"
proof (induction ivs arbitrary: lo idx)
  case Nil
  then show ?case by simp
next
  case (Cons iv ivs)
  obtain s e where iv: "iv = (s, e)" by (cases iv)
  from Cons.prems iv have p: "clock_time s" "clock_time e"
    "ordered_slots (Suc (minute_index e)) ivs" by simp_all
  have "group_slots idx None None (flat_bounds (iv # ivs))
        = (time_of (minute_index s), time_of (minute_index e))
          # group_slots (Suc (Suc idx)) None None (flat_bounds ivs)"
    unfolding iv flat_bounds.simps by (rule group_slots_pair[OF Cons.prems(2)])
  also have "group_slots (Suc (Suc idx)) None None (flat_bounds ivs) = ivs"
    using Cons.IH[OF p(3)] Cons.prems(2) by simp
  finally show ?case using iv time_of_minute_index[OF p(1)] time_of_minute_index[OF p(2)] by simp
qed

lemma unwrap_slots_of:
  "unwrap s = (case slots_of s of [(a, b)] \<Rightarrow> Single a b | ivs \<Rightarrow> Multi ivs)"
  by (cases s rule: unwrap.cases) (auto split: list.splits)

lemma to_vector_slots_of:
  "slots_of s \<noteq> [] \<Longrightarrow> to_vector s = define_slots (replicate 1440 False) (slots_of s)"
  by (cases s rule: unwrap.cases) (auto simp add: to_vector_def split: sum.splits)

lemma ordered_day_slots: "ordered_day s \<longleftrightarrow> slots_of s \<noteq> [] \<and> ordered_slots 0 (slots_of s)"
  by (cases s) auto

lemma all_true_indexes:
  assumes "length v = 24 * 60" "list_all (\<lambda>b. b) v"
  shows "slot_indexes bool_dtype v = [0, 24 * 60]"
proof -
  have ne: "v \<noteq> []" using assms(1) by auto
  have t: "v ! i" if "i < length v" for i using assms(2) that by (simp add: list_all_length)
  have "changes v = []" unfolding changes_def by (rule filter_False) (auto simp add: t)
  then show ?thesis using slot_indexes_eq[OF ne] t[of 0] t[of "length v - 1"] assms(1) by simp
qed

text \<open>
  The vector of an ordered day schedule decodes to that schedule (a tuple of one slot
  unwrapped); the vector that is all false decodes to no entry.
\<close>

lemma decode_ordered_day:
  assumes "ordered_day s"
  shows "\<exists>v. to_vector s = Inr v \<and> list_ex (\<lambda>b. b) v \<and> decode_day v = Some (unwrap s)
           \<and> (list_all (\<lambda>b. b) v \<longrightarrow> unwrap s = Single (0, 0) (24, 0))"
proof -
  let ?ivs = "slots_of s"
  from assms have ne: "?ivs \<noteq> []" and ord: "ordered_slots 0 ?ivs"
    by (simp_all add: ordered_day_slots)
  from ordered_slots_vector[OF ord] obtain v where
    v: "define_slots (replicate 1440 False) ?ivs = Inr v" and l: "length v = 1440"
    and c: "\<forall>i<1440. v ! i = covered ?ivs i" by blast
  have tv: "to_vector s = Inr v" using to_vector_slots_of[OF ne] v by simp
  have l': "length v = 24 * 60" using l by simp
  have idx: "slot_indexes bool_dtype v = flat_bounds ?ivs" using ord l' c by (rule ordered_slots_indexes)
  have grp: "group_slots 0 None None (slot_indexes bool_dtype v) = ?ivs"
    unfolding idx using ord by (rule group_slots_flat) simp
  obtain s1 e1 rest where first: "?ivs = (s1, e1) # rest" using ne by (cases ?ivs) auto
  have p: "clock_time s1" "minute_index s1 < minute_index e1" "clock_time e1"
    using ord first by simp_all
  have "covered ?ivs (minute_index s1)" using first p(2) by (simp add: covered_Cons)
  then have on: "v ! minute_index s1" and inside: "minute_index s1 < length v"
    using c ordered_slots_covered[OF ord, of "minute_index s1"] l by auto
  have "v ! minute_index s1 \<in> set v" using inside by (rule nth_mem)
  then have any: "list_ex (\<lambda>b. b) v" unfolding list_ex_iff using on by (rule bexI[rotated])
  have full: "unwrap s = Single (0, 0) (24, 0)" if "list_all (\<lambda>b. b) v"
  proof -
    have "flat_bounds ((s1, e1) # rest) = [0, 24 * 60]"
      using all_true_indexes[OF l' that] idx first by simp
    then have m: "minute_index s1 = 0" "minute_index e1 = 24 * 60" "flat_bounds rest = []"
      by simp_all
    have r: "rest = []" using m(3) by (cases rest) auto
    have "s1 = time_of 0" "e1 = time_of (24 * 60)"
      using time_of_minute_index[OF p(1)] time_of_minute_index[OF p(3)] m by simp_all
    then have "s1 = (0, 0)" "e1 = (24, 0)" by (simp_all add: time_of_def)
    then have "?ivs = [((0, 0), (24, 0))]" using first r by simp
    then show ?thesis by (simp add: unwrap_slots_of)
  qed
  have rs: "np_reshape \<lparr>shape = [24, 60], cells = v\<rparr> [24 * 60] = Inr \<lparr>shape = [24 * 60], cells = v\<rparr>"
    using l by (simp add: np_reshape_def)
  have dec: "decode_day v = Some (unwrap s)"
  proof (cases "list_all (\<lambda>b. b) v")
    case True
    then show ?thesis using full by (simp add: decode_day_def format_day_def np_all_def)
  next
    case False
    have fd: "format_day bool_dtype \<lparr>shape = [24, 60], cells = v\<rparr>
          = (let day_slots = ?ivs
             in case day_slots of [(a, b)] \<Rightarrow> Inr (Some (Single a b))
                | _ \<Rightarrow> Inr (Some (Multi day_slots)))"
      using False any rs grp
      by (simp add: format_day_def np_all_def np_any_def)
    show ?thesis
    proof (cases rest)
      case Nil
      then show ?thesis using fd first by (simp add: decode_day_def unwrap_slots_of)
    next
      case (Cons y zs)
      then show ?thesis using fd first by (simp add: decode_day_def unwrap_slots_of)
    qed
  qed
  from tv any dec full show ?thesis by blast
qed

lemma decode_day_zeros: "decode_day (replicate 1440 False) = None"
  by (simp add: decode_day_def format_day_def np_all_def np_any_def list_ex_iff list_all_iff)

subsection \<open>Decoding the whole grid\<close>

lemma format_day_total:
  assumes "length v = 1440"
  shows "format_day bool_dtype \<lparr>shape = [24, 60], cells = v\<rparr> = Inr (decode_day v)"
proof -
  have "np_reshape \<lparr>shape = [24, 60], cells = v\<rparr> [24 * 60] = Inr \<lparr>shape = [24 * 60], cells = v\<rparr>"
    using assms by (simp add: np_reshape_def)
  then have "\<exists>r. format_day bool_dtype \<lparr>shape = [24, 60], cells = v\<rparr> = Inr r"
    by (simp add: format_day_def Let_def split: list.splits prod.splits)
  then show ?thesis by (auto simp add: decode_day_def)
qed

lemma decode_day_cases:
  assumes "length v = 1440"
  shows "(decode_day v = None) = (\<not> list_ex (\<lambda>b. b) v)"
    and "list_all (\<lambda>b. b) v \<Longrightarrow> decode_day v = Some (Single (0, 0) (24, 0))"
    and "decode_day v \<noteq> Some (Multi [x])"
proof -
  have rs: "np_reshape \<lparr>shape = [24, 60], cells = v\<rparr> [24 * 60] = Inr \<lparr>shape = [24 * 60], cells = v\<rparr>"
    using assms by (simp add: np_reshape_def)
  have ne: "v \<noteq> []" using assms by auto
  have ae: "list_all (\<lambda>b. b) v \<Longrightarrow> list_ex (\<lambda>b. b) v"
    using ne by (cases v) simp_all
  show "(decode_day v = None) = (\<not> list_ex (\<lambda>b. b) v)"
    using rs ae
    by (auto simp add: decode_day_def format_day_def np_all_def np_any_def Let_def
        split: list.splits prod.splits)
  show "list_all (\<lambda>b. b) v \<Longrightarrow> decode_day v = Some (Single (0, 0) (24, 0))"
    by (simp add: decode_day_def format_day_def np_all_def)
  show "decode_day v \<noteq> Some (Multi [x])"
    using rs
    by (auto simp add: decode_day_def format_day_def np_all_def np_any_def Let_def
        split: list.splits prod.splits)
qed

lemma format_days_eq:
  "valid_ndarray g \<Longrightarrow> list_all (\<lambda>d. d < 7) days \<Longrightarrow>
   format_days bool_dtype g days
   = Inr (List.map_filter
            (\<lambda>d. case decode_day (day_vector g d) of None \<Rightarrow> None | Some s \<Rightarrow> Some (int d, s))
            days)"
proof (induction days)
  case Nil
  then show ?case by (simp add: List.map_filter_simps)
next
  case (Cons d days)
  have d: "d < 7" using Cons.prems(2) by simp
  have get: "getitem g (int d) = Inr \<lparr>shape = [24, 60], cells = day_vector g d\<rparr>"
    using Cons.prems(1) d getitem_rows[of g "[24, 60]" d] by (simp add: valid_ndarray_def)
  have l: "length (day_vector g d) = 1440"
    using Cons.prems(1) d by (simp add: length_day_vector valid_ndarray_def)
  show ?case
    using Cons.IH Cons.prems get format_day_total[OF l]
    by (simp add: List.map_filter_simps split: option.splits)
qed

lemma map_of_decoded:
  "map_of (List.map_filter
            (\<lambda>d. case f d of None \<Rightarrow> None | Some s \<Rightarrow> Some (int d, s)) days) k
   = (if 0 \<le> k \<and> nat k \<in> set days then f (nat k) else None)"
proof (induction days)
  case Nil
  then show ?case by (simp add: List.map_filter_simps)
next
  case (Cons d days)
  show ?case
  proof (cases "k = int d")
    case True
    then show ?thesis using Cons.IH
      by (cases "f d") (auto simp add: List.map_filter_simps)
  next
    case False
    then have "0 \<le> k \<Longrightarrow> nat k \<noteq> d" by auto
    then show ?thesis using Cons.IH False
      by (cases "f d") (auto simp add: List.map_filter_simps)
  qed
qed

lemma day_vector_subset: "set (day_vector g d) \<subseteq> set (cells g)"
  unfolding day_vector_def using set_take_subset set_drop_subset by fast

lemma format_grid_map_of:
  assumes "valid_ndarray g"
  shows "\<exists>R. format_grid bool_dtype g = Inr R
           \<and> (\<forall>k. map_of R k
                 = (if 0 \<le> k \<and> k < 7 then decode_day (day_vector g (nat k)) else None))"
proof -
  have len: "length (day_vector g d) = 1440" if "d < 7" for d
    using assms that by (simp add: length_day_vector valid_ndarray_def)
  have seven: "(0 \<le> k \<and> nat k \<in> set [0..<7]) = (0 \<le> k \<and> k < 7)" for k :: int by auto
  have days: "list_all (\<lambda>d. d < 7) [0..<7]" by (simp add: list_all_iff)
  let ?dec = "\<lambda>d. case decode_day (day_vector g d) of None \<Rightarrow> None | Some s \<Rightarrow> Some (int d, s)"
  have general: "map_of (List.map_filter ?dec [0..<7]) k
                 = (if 0 \<le> k \<and> k < 7 then decode_day (day_vector g (nat k)) else None)" for k
    using map_of_decoded[of "\<lambda>d. decode_day (day_vector g d)" "[0..<7]" k] seven[of k]
    by (simp only:)
  consider "np_all bool_dtype g" | "\<not> np_all bool_dtype g" "\<not> np_any bool_dtype g" | "\<not> np_all bool_dtype g" "np_any bool_dtype g" by blast
  then show ?thesis
  proof cases
    case 1
    have "decode_day (day_vector g d) = Some (Single (0, 0) (24, 0))" if "d < 7" for d
    proof -
      have "list_all (\<lambda>b. b) (day_vector g d)"
        using 1 day_vector_subset[of g d] by (auto simp add: np_all_def list_all_iff)
      then show ?thesis using decode_day_cases(2)[OF len[OF that]] by simp
    qed
    then have "List.map_filter ?dec [0..<7] = map (\<lambda>day. (int day, Single (0, 0) (24, 0))) [0..<7]"
      unfolding upt_0_7 by (simp add: List.map_filter_simps)
    then show ?thesis using 1 general by (simp add: format_grid_def)
  next
    case 2
    have "decode_day (day_vector g d) = None" if "d < 7" for d
    proof -
      have "\<not> list_ex (\<lambda>b. b) (day_vector g d)"
        using 2(2) day_vector_subset[of g d] by (auto simp add: np_any_def list_ex_iff)
      then show ?thesis using decode_day_cases(1)[OF len[OF that]] by simp
    qed
    then have "List.map_filter ?dec [0..<7] = []"
      unfolding upt_0_7 by (simp add: List.map_filter_simps)
    then show ?thesis using 2 general by (simp add: format_grid_def)
  next
    case 3
    then show ?thesis using format_days_eq[OF assms days] general by (simp add: format_grid_def)
  qed
qed

subsection \<open>Encoding and decoding again\<close>

lemma map_of_canonical_form:
  "distinct (map fst S) \<Longrightarrow>
   map_of (canonical_form S) k
   = (case map_of S k of
        None \<Rightarrow> None
      | Some s \<Rightarrow> if list_ex (\<lambda>b. b) (vector_of s) then Some (canonical_day s) else None)"
proof (induction S)
  case Nil
  then show ?case by (simp add: canonical_form_def)
next
  case (Cons item S)
  obtain d s where item: "item = (d, s)" by (cases item)
  from Cons.prems item have dist: "distinct (map fst S)" and notin: "d \<notin> fst ` set S" by simp_all
  have ih: "map_of (canonical_form S) k
   = (case map_of S k of
        None \<Rightarrow> None
      | Some s \<Rightarrow> if list_ex (\<lambda>b. b) (vector_of s) then Some (canonical_day s) else None)"
    using Cons.IH[OF dist] .
  have cf: "canonical_form (item # S)
            = (if list_ex (\<lambda>b. b) (vector_of s) then (d, canonical_day s) # canonical_form S
               else canonical_form S)"
    using item by (simp add: canonical_form_def)
  show ?case
  proof (cases "k = d")
    case True
    then have "map_of S k = None" using notin by (simp add: map_of_eq_None_iff)
    then show ?thesis using True ih cf item by simp
  next
    case False
    then show ?thesis using ih cf item by simp
  qed
qed

lemma to_matrix_items_keys:
  "to_matrix_items slots items = Inr g \<Longrightarrow> (d, s) \<in> set items \<Longrightarrow> 0 \<le> d \<and> d < 7"
proof (induction items arbitrary: slots)
  case Nil
  then show ?case by simp
next
  case (Cons item items)
  obtain d' s' where item: "item = (d', s')" by (cases item)
  from Cons.prems(1) item have range: "0 \<le> d'" "d' < 7" by (auto split: if_splits)
  from Cons.prems(1) item range obtain slots' where "to_matrix_items slots' items = Inr g"
    by (auto split: sum.splits)
  from Cons.IH[OF this] Cons.prems(2) item range show ?case by auto
qed

lemma to_matrix_items_ordered:
  "valid_ndarray slots \<Longrightarrow> list_all (\<lambda>(d, s). 0 \<le> d \<and> d < 7 \<and> ordered_day s) items \<Longrightarrow>
   \<exists>g. to_matrix_items slots items = Inr g"
proof (induction items arbitrary: slots)
  case Nil
  then show ?case by simp
next
  case (Cons item items)
  obtain d s where item: "item = (d, s)" by (cases item)
  from Cons.prems(2) item have p: "0 \<le> d" "d < 7" "ordered_day s"
    and rest: "list_all (\<lambda>(d, s). 0 \<le> d \<and> d < 7 \<and> ordered_day s) items" by simp_all
  define k where "k = nat d"
  have k: "d = int k" "k < 7" using p by (simp_all add: k_def)
  from decode_ordered_day[OF p(3)] obtain v where v: "to_vector s = Inr v" by blast
  have lv: "length v = 1440" using v by (rule to_vector_length)
  let ?slots' = "slots\<lparr>cells := take (k * 1440) (cells slots) @ v @ drop (Suc k * 1440) (cells slots)\<rparr>"
  have set: "setitem slots d (reshape_24_60 v) = Inr ?slots'"
    using setitem_day[OF Cons.prems(1) k(2) lv] k(1) by simp
  have "valid_ndarray ?slots'" using Cons.prems(1) k(2) lv by (rule valid_ndarray_splice)
  from Cons.IH[OF this rest] show ?case using item p v set by simp
qed

text \<open>A schedule of ordered days on the days 0 to 6 is accepted.\<close>

lemma from_raw_ordered:
  assumes "S \<noteq> []" "list_all (\<lambda>(d, s). 0 \<le> d \<and> d < 7 \<and> ordered_day s) S" "db tz = Some z"
  shows "\<exists>w. from_raw db (RawDict S) tz = Inr w"
proof -
  from to_matrix_items_ordered[OF valid_ndarray_zeros assms(2)] obtain g where
    g: "to_matrix S = Inr g" by (auto simp add: to_matrix_def)
  have "shape g = [7, 24, 60]" using to_matrix_valid[OF g] by (simp add: valid_ndarray_def)
  with assms(3,1) g
  have "from_raw db (RawDict S) tz
        = Inr \<lparr>schedule = BoolArray g, timezone = Some tz, pytz = Some z,
               is_working_day_fun = None\<rparr>"
    by (rule from_raw_dict)
  then show ?thesis by blast
qed

lemma round_trip_general:
  assumes acc: "from_raw db (RawDict S) tz = Inr w" and dist: "distinct (map fst S)"
  shows "\<exists>R g. schedule w = BoolArray g \<and> format_schedule w = Inr R
     \<and> (\<forall>k. map_of R k
           = (if 0 \<le> k \<and> k < 7 then decode_day (day_vector g (nat k)) else None))
     \<and> (\<forall>d<7. day_vector g d
           = (case map_of S (int d) of None \<Rightarrow> replicate 1440 False | Some s \<Rightarrow> vector_of s))
     \<and> (\<forall>d s. (d, s) \<in> set S \<longrightarrow> 0 \<le> d \<and> d < 7)
     \<and> valid_ndarray g"
proof -
  from from_raw_dict_schedule[OF acc] obtain g where
    tm: "to_matrix S = Inr g" and g: "schedule w = BoolArray g" by blast
  have vg: "valid_ndarray g" using tm by (rule to_matrix_valid)
  from format_grid_map_of[OF vg] obtain R where
    R: "format_grid bool_dtype g = Inr R"
    and m: "\<forall>k. map_of R k
           = (if 0 \<le> k \<and> k < 7 then decode_day (day_vector g (nat k)) else None)"
    by blast
  have dv: "\<forall>d<7. day_vector g d
           = (case map_of S (int d) of None \<Rightarrow> replicate 1440 False | Some s \<Rightarrow> vector_of s)"
    using to_matrix_day(2)[OF dist tm] by blast
  have keys: "\<forall>d s. (d, s) \<in> set S \<longrightarrow> 0 \<le> d \<and> d < 7"
    using tm to_matrix_items_keys unfolding to_matrix_def by blast
  have "format_schedule w = Inr R" using R g by (simp add: format_schedule_def)
  with g m dv keys vg show ?thesis by blast
qed

lemma round_trip_ordered:
  assumes acc: "from_raw db (RawDict S) tz = Inr w" and dist: "distinct (map fst S)"
    and ord: "list_all (\<lambda>(d, s). ordered_day s) S"
    and R: "format_schedule w = Inr R"
  shows "map_of R = map_of (canonical_form S)"
proof
  fix k
  from round_trip_general[OF acc dist] R obtain g where
    m: "map_of R k
           = (if 0 \<le> k \<and> k < 7 then decode_day (day_vector g (nat k)) else None)"
    and dv: "\<forall>d<7. day_vector g d
           = (case map_of S (int d) of None \<Rightarrow> replicate 1440 False | Some s \<Rightarrow> vector_of s)"
    and keys: "\<forall>d s. (d, s) \<in> set S \<longrightarrow> 0 \<le> d \<and> d < 7"
    by auto
  show "map_of R k = map_of (canonical_form S) k"
  proof (cases "map_of S k")
    case None
    have "map_of R k = None"
    proof (cases "0 \<le> k \<and> k < 7")
      case True
      then have "nat k < 7" "int (nat k) = k" by linarith+
      then have "day_vector g (nat k) = replicate 1440 False"
        using dv[rule_format, of "nat k"] None by simp
      then show ?thesis using m True decode_day_zeros by simp
    next
      case False
      then show ?thesis using m by auto
    qed
    then show ?thesis using None by (simp add: map_of_canonical_form[OF dist])
  next
    case (Some s)
    then have mem: "(k, s) \<in> set S" by (rule map_of_SomeD)
    then have range: "0 \<le> k" "k < 7" using keys by auto
    have "ordered_day s" using ord mem by (auto simp add: list_all_iff)
    from decode_ordered_day[OF this] obtain v where
      v: "to_vector s = Inr v" and any: "list_ex (\<lambda>b. b) v"
      and dec: "decode_day v = Some (unwrap s)"
      and full: "list_all (\<lambda>b. b) v \<longrightarrow> unwrap s = Single (0, 0) (24, 0)" by blast
    have vo: "vector_of s = v" using v by (rule vector_of_eq)
    have "nat k < 7" "int (nat k) = k" using range by linarith+
    then have "day_vector g (nat k) = v"
      using dv[rule_format, of "nat k"] Some vo by simp
    then have "map_of R k = Some (unwrap s)" using m range dec by simp
    moreover have "canonical_day s = unwrap s" using full vo by (simp add: canonical_day_def)
    ultimately show ?thesis using Some any vo by (simp add: map_of_canonical_form[OF dist])
  qed
qed

lemma canonical_form_ordered:
  "list_all (\<lambda>(d, s). ordered_day s) S \<Longrightarrow>
   canonical_form S = map (\<lambda>(d, s). (d, unwrap s)) S"
proof (induction S)
  case Nil
  then show ?case by (simp add: canonical_form_def)
next
  case (Cons item S)
  obtain d s where item: "item = (d, s)" by (cases item)
  from Cons.prems item have o: "ordered_day s" and rest: "list_all (\<lambda>(d, s). ordered_day s) S"
    by simp_all
  from decode_ordered_day[OF o] obtain v where
    v: "to_vector s = Inr v" and any: "list_ex (\<lambda>b. b) v"
    and full: "list_all (\<lambda>b. b) v \<longrightarrow> unwrap s = Single (0, 0) (24, 0)" by blast
  have vo: "vector_of s = v" using v by (rule vector_of_eq)
  have "canonical_day s = unwrap s" using full vo by (simp add: canonical_day_def)
  moreover have "canonical_form (item # S) = (d, canonical_day s) # canonical_form S"
    using item any vo by (simp add: canonical_form_def)
  ultimately show ?case using Cons.IH[OF rest] item by simp
qed

lemma overlapping_vector:
  "to_vector (Multi [((0, 0), (7, 0)), ((6, 0), (8, 0))]) = to_vector (Single (0, 0) (8, 0))"
proof -
  have a: "to_vector (Multi [((0, 0), (7, 0)), ((6, 0), (8, 0))])
           = Inr (slice_fill (slice_fill (replicate 1440 False) 0 420) 360 480)"
    by (simp add: to_vector_def define_slot_def)
  have b: "to_vector (Single (0, 0) (8, 0)) = Inr (slice_fill (replicate 1440 False) 0 480)"
    by (simp add: to_vector_def define_slot_def)
  have "slice_fill (slice_fill (replicate 1440 False) 0 420) 360 480
        = slice_fill (replicate 1440 False) 0 480"
  proof (rule nth_equalityI)
    show "length (slice_fill (slice_fill (replicate 1440 False) 0 420) 360 480)
          = length (slice_fill (replicate 1440 False) 0 480)"
      by (simp add: length_slice_fill)
  next
    fix i
    assume "i < length (slice_fill (slice_fill (replicate 1440 False) 0 420) 360 480)"
    then have i: "i < 1440" by (simp add: length_slice_fill)
    then show "slice_fill (slice_fill (replicate 1440 False) 0 420) 360 480 ! i
               = slice_fill (replicate 1440 False) 0 480 ! i"
      by (auto simp add: nth_slice_fill length_slice_fill slice_bound_def)
  qed
  with a b show ?thesis by simp
qed

subsection \<open>What construction rejects\<close>

lemma define_slot_fails_iff:
  "(\<exists>err. define_slot slots s e = Inl err)
   \<longleftrightarrow> \<not> (tuple_le (0, 0) s \<and> tuple_le s (24, 0))
       \<or> \<not> (tuple_le (0, 0) e \<and> tuple_le e (24, 0)) \<or> \<not> tuple_lt s e"
  by (simp add: define_slot_def)

lemma define_slots_fails_iff:
  "(\<exists>err. define_slots slots ivs = Inl err)
   \<longleftrightarrow> list_ex (\<lambda>(s, e). \<not> (tuple_le (0, 0) s \<and> tuple_le s (24, 0))
                        \<or> \<not> (tuple_le (0, 0) e \<and> tuple_le e (24, 0)) \<or> \<not> tuple_lt s e) ivs"
proof (induction ivs arbitrary: slots)
  case Nil
  then show ?case by simp
next
  case (Cons iv ivs)
  obtain s e where iv: "iv = (s, e)" by (cases iv)
  show ?case
  proof (cases "define_slot slots s e")
    case (Inl err)
    then show ?thesis using iv define_slot_fails_iff[of slots s e] by auto
  next
    case (Inr slots')
    then have "\<not> (\<exists>err. define_slot slots s e = Inl err)" by simp
    then show ?thesis using iv Inr Cons.IH[of slots'] define_slot_fails_iff[of slots s e]
      by simp
  qed
qed

text \<open>
  \<^verbatim>\<open>to_vector\<close> raises exactly on the empty tuple and on a slot with a time outside
  \<open>(0, 0) \<le> t \<le> (24, 0)\<close> or with a start that is not below its end, both in the
  order of Python tuples.
\<close>

lemma to_vector_fails_iff:
  "(\<exists>err. to_vector s = Inl err)
   \<longleftrightarrow> slots_of s = []
       \<or> list_ex (\<lambda>(s, e). \<not> (tuple_le (0, 0) s \<and> tuple_le s (24, 0))
                        \<or> \<not> (tuple_le (0, 0) e \<and> tuple_le e (24, 0)) \<or> \<not> tuple_lt s e)
            (slots_of s)"
proof (cases "slots_of s = []")
  case True
  then show ?thesis by (cases s) (simp_all add: to_vector_def)
next
  case False
  then show ?thesis
    using to_vector_slots_of[OF False] define_slots_fails_iff[of "replicate 1440 False" "slots_of s"]
    by simp
qed

lemma to_matrix_items_fails_iff:
  "valid_ndarray slots \<Longrightarrow>
   (\<exists>err. to_matrix_items slots items = Inl err)
   \<longleftrightarrow> list_ex (\<lambda>(d, s). \<not> (0 \<le> d \<and> d < 7) \<or> (\<exists>err. to_vector s = Inl err)) items"
proof (induction items arbitrary: slots)
  case Nil
  then show ?case by simp
next
  case (Cons item items)
  obtain d s where item: "item = (d, s)" by (cases item)
  show ?case
  proof (cases "0 \<le> d \<and> d < 7")
    case False
    then show ?thesis using item by auto
  next
    case True
    define k where "k = nat d"
    have k: "d = int k" "k < 7" using True unfolding k_def by linarith+
    show ?thesis
    proof (cases "to_vector s")
      case (Inl err)
      then show ?thesis using item True by auto
    next
      case (Inr v)
      have lv: "length v = 1440" using Inr by (rule to_vector_length)
      let ?slots' = "slots\<lparr>cells := take (k * 1440) (cells slots) @ v
                       @ drop (Suc k * 1440) (cells slots)\<rparr>"
      have set: "setitem slots d (reshape_24_60 v) = Inr ?slots'"
        using setitem_day[OF Cons.prems k(2) lv] k(1) by simp
      have "valid_ndarray ?slots'" using Cons.prems k(2) lv by (rule valid_ndarray_splice)
      from Cons.IH[OF this] show ?thesis using item True Inr set by simp
    qed
  qed
qed

text \<open>
  With a timezone the database resolves, \<^verbatim>\<open>from_raw\<close> raises on a dict exactly when
  the dict is empty, a key is outside 0 to 6, or \<^verbatim>\<open>to_vector\<close> raises on a day.
\<close>

lemma from_raw_dict_fails_iff:
  assumes "db tz = Some z"
  shows "(\<exists>err. from_raw db (RawDict S) tz = Inl err)
         \<longleftrightarrow> S = []
             \<or> list_ex (\<lambda>(d, s). \<not> (0 \<le> d \<and> d < 7) \<or> (\<exists>err. to_vector s = Inl err)) S"
proof (cases "S = []")
  case True
  then show ?thesis by (simp add: from_raw_def)
next
  case False
  show ?thesis
  proof (cases "to_matrix S")
    case (Inl err)
    then have "list_ex (\<lambda>(d, s). \<not> (0 \<le> d \<and> d < 7) \<or> (\<exists>err. to_vector s = Inl err)) S"
      using to_matrix_items_fails_iff[OF valid_ndarray_zeros, of S] by (auto simp add: to_matrix_def)
    moreover have "from_raw db (RawDict S) tz = Inl err" using Inl False by (simp add: from_raw_def)
    ultimately show ?thesis by blast
  next
    case (Inr g)
    then have n: "\<not> list_ex (\<lambda>(d, s). \<not> (0 \<le> d \<and> d < 7) \<or> (\<exists>err. to_vector s = Inl err)) S"
      using to_matrix_items_fails_iff[OF valid_ndarray_zeros, of S] by (auto simp add: to_matrix_def)
    have "shape g = [7, 24, 60]" using to_matrix_valid[OF Inr] by (simp add: valid_ndarray_def)
    with assms False Inr
    have "from_raw db (RawDict S) tz
          = Inr \<lparr>schedule = BoolArray g, timezone = Some tz, pytz = Some z,
                 is_working_day_fun = None\<rparr>"
      by (rule from_raw_dict)
    then show ?thesis using n False by simp
  qed
qed

text \<open>
  For a time whose minute is between 0 and 59 the order of tuples is the order of
  times: the bounds check is \<open>0 \<le> hour * 60 + minute \<le> 1440\<close>.
\<close>

lemma tuple_order_minutes:
  assumes "0 \<le> snd s" "snd s < 60" "0 \<le> snd e" "snd e < 60"
  shows "(tuple_le (0, 0) s \<and> tuple_le s (24, 0))
         = (0 \<le> fst s * 60 + snd s \<and> fst s * 60 + snd s \<le> 1440)"
    and "tuple_lt s e = (fst s * 60 + snd s < fst e * 60 + snd e)"
proof -
  obtain a b where s: "s = (a, b)" by (cases s)
  obtain c d where e: "e = (c, d)" by (cases e)
  show "(tuple_le (0, 0) s \<and> tuple_le s (24, 0))
         = (0 \<le> fst s * 60 + snd s \<and> fst s * 60 + snd s \<le> 1440)"
    using assms(1,2) s by auto
  show "tuple_lt s e = (fst s * 60 + snd s < fst e * 60 + snd e)"
    using assms s e by auto
qed

lemma shift_start_negative:
  "hours * 60 + minutes < 0 \<Longrightarrow>
   shift_start memory w hours minutes
   = (w, Some (AssertionError ''start should be postponed by a positive number of minutes''))"
  by (simp add: shift_start_def)

lemma fill_past_end: "slice_fill (replicate 1440 False) 0 1450 = replicate 1440 True"
  by (rule nth_equalityI) (simp_all add: length_slice_fill nth_slice_fill slice_bound_def)

lemma fill_backwards: "slice_fill (replicate 1440 False) 399 360 = replicate 1440 False"
  by (rule nth_equalityI) (simp_all add: length_slice_fill nth_slice_fill slice_bound_def)

subsection \<open>Runs under a shift\<close>

lemma masked_nth:
  assumes "i < length v"
  shows "map2 (\<and>) v (delayed_copy n v) ! i = (v ! i \<and> n \<le> i \<and> v ! (i - n))"
  using assms by (simp add: delayed_copy_length delayed_copy_nth)

text \<open>
  A stretch of true minutes whose preceding \<open>n\<close> minutes (as many as there are) are
  false keeps its end and loses its first \<open>n\<close> minutes.
\<close>

lemma masked_run:
  assumes "b \<le> length v" and "list_all (\<lambda>i. v ! i) [a..<b]"
    and "list_all (\<lambda>j. \<not> v ! j) [a - n..<a]"
  shows "start_delayed n (map2 (\<and>) v (delayed_copy n v)) a b"
  unfolding start_delayed_def list_all_iff
proof
  fix i assume "i \<in> set [a..<b]"
  then have i: "a \<le> i" "i < b" by simp_all
  have on: "v ! j" if "a \<le> j" "j < b" for j
    using assms(2) that by (simp add: list_all_iff)
  have off: "\<not> v ! j" if "a - n \<le> j" "j < a" for j
    using assms(3) that by (simp add: list_all_iff)
  have "(v ! i \<and> n \<le> i \<and> v ! (i - n)) = (a + n \<le> i)"
  proof (cases "a + n \<le> i")
    case True
    then have "a \<le> i - n" "i - n < b" "n \<le> i" using i by linarith+
    then show ?thesis using on[of i] on[of "i - n"] i True by simp
  next
    case False
    show ?thesis
    proof (cases "n \<le> i")
      case True
      then have "a - n \<le> i - n" "i - n < a" using False i by linarith+
      then show ?thesis using off[of "i - n"] False by simp
    next
      case False
      then show ?thesis by simp
    qed
  qed
  then show "map2 (\<and>) v (delayed_copy n v) ! i = (a + n \<le> i)"
    using masked_nth[of i v n] i assms(1) by simp
qed

lemma close_slots_vector:
  shows "to_vector (Multi [((0, 0), (1, 0)), ((1, 30), (3, 0))])
   = Inr (vector_of (Multi [((0, 0), (1, 0)), ((1, 30), (3, 0))]))"
    "length (vector_of (Multi [((0, 0), (1, 0)), ((1, 30), (3, 0))])) = 1440"
    "i < 1440 \<Longrightarrow>
       vector_of (Multi [((0, 0), (1, 0)), ((1, 30), (3, 0))]) ! i = (i < 60 \<or> (90 \<le> i \<and> i < 180))"
proof -
  have tv: "to_vector (Multi [((0, 0), (1, 0)), ((1, 30), (3, 0))])
        = Inr (slice_fill (slice_fill (replicate 1440 False) 0 60) 90 180)"
    by (simp add: to_vector_def define_slot_def)
  then have vo: "vector_of (Multi [((0, 0), (1, 0)), ((1, 30), (3, 0))])
        = slice_fill (slice_fill (replicate 1440 False) 0 60) 90 180"
    by (rule vector_of_eq)
  show "to_vector (Multi [((0, 0), (1, 0)), ((1, 30), (3, 0))])
   = Inr (vector_of (Multi [((0, 0), (1, 0)), ((1, 30), (3, 0))]))"
    using tv vo by simp
  show "length (vector_of (Multi [((0, 0), (1, 0)), ((1, 30), (3, 0))])) = 1440"
    using vo by (simp add: length_slice_fill)
  show "vector_of (Multi [((0, 0), (1, 0)), ((1, 30), (3, 0))]) ! i = (i < 60 \<or> (90 \<le> i \<and> i < 180))"
    if "i < 1440"
    using vo that by (auto simp add: nth_slice_fill length_slice_fill slice_bound_def)
qed

lemma from_raw_close_slots:
  "from_raw sample_tzdb (RawDict close_slots) ''UTC'' = Inr close_slots_schedule"
proof -
  let ?g = "\<lparr>shape = [7, 24, 60],
            cells = vector_of (Multi [((0, 0), (1, 0)), ((1, 30), (3, 0))])
                    @ replicate 8640 False\<rparr>"
  have z: "sample_tzdb ''UTC'' = Some (\<lambda>instant. 0)" by (simp add: sample_tzdb_def)
  have "to_matrix close_slots = Inr ?g"
    using close_slots_vector(1)
    by (simp add: to_matrix_def close_slots_def setitem_def np_zeros_def axis_index_def
        reshape_24_60_def)
  moreover have "close_slots \<noteq> []" by (simp add: close_slots_def)
  moreover have "shape ?g = [7, 24, 60]" by simp
  ultimately have "from_raw sample_tzdb (RawDict close_slots) ''UTC''
      = Inr \<lparr>schedule = BoolArray ?g, timezone = Some ''UTC'',
             pytz = Some (\<lambda>instant. 0), is_working_day_fun = None\<rparr>"
    using z by (intro from_raw_dict)
  then show ?thesis by (simp add: close_slots_schedule_def close_slots_grid_def)
qed

lemma close_slots_monday:
  "schedule close_slots_schedule = BoolArray close_slots_grid"
  "valid_ndarray close_slots_grid"
  "day_vector close_slots_grid 0 = vector_of (Multi [((0, 0), (1, 0)), ((1, 30), (3, 0))])"
  using close_slots_vector(2)
  by (simp_all add: valid_ndarray_def day_vector_def close_slots_schedule_def
      close_slots_grid_def)

text \<open>
  For a total shift of \<open>total = 60 * hours + minutes > 0\<close> minutes that the machine
  can allocate, \<^verbatim>\<open>shift_start\<close> on a grid of bools returns normally and changes
  only the grid: the vector \<open>v\<close> of each day becomes \<open>v AND delayed_copy total v\<close>, so
  minute \<open>i\<close> stays on exactly when it was on and minute \<open>i - total\<close> of the same day
  was on too. A stretch of true minutes whose preceding \<open>total\<close> minutes (as many as
  the day has) are all false keeps its end and has its start delayed by \<open>total\<close>. A
  shift of a whole day or more leaves every day all false.
\<close>

lemma shift_start_delays:
  assumes "schedule w = BoolArray a" and "valid_ndarray a" and "0 < hours * 60 + minutes"
    and "hours * 60 + minutes \<le> int memory" and "hours * 60 + minutes < 2 ^ 63"
  shows "\<exists>g. shift_start memory w hours minutes = (w\<lparr>schedule := BoolArray g\<rparr>, None)
           \<and> valid_ndarray g
           \<and> (\<forall>d<7. day_vector g d
                  = map2 (\<and>) (day_vector a d)
                      (delayed_copy (nat (hours * 60 + minutes)) (day_vector a d)))
           \<and> (\<forall>d<7. \<forall>i<1440. day_vector g d ! i
                  = (day_vector a d ! i \<and> hours * 60 + minutes \<le> int i
                     \<and> day_vector a d ! (i - nat (hours * 60 + minutes))))
           \<and> (\<forall>d<7. \<forall>x y. y \<le> 1440
                  \<and> list_all (\<lambda>i. day_vector a d ! i) [x..<y]
                  \<and> list_all (\<lambda>j. \<not> day_vector a d ! j)
                       [x - nat (hours * 60 + minutes)..<x]
                  \<longrightarrow> start_delayed (nat (hours * 60 + minutes)) (day_vector g d) x y)
           \<and> (1440 \<le> hours * 60 + minutes \<longrightarrow>
                (\<forall>d<7. day_vector g d = replicate 1440 False))"
proof -
  let ?n = "nat (hours * 60 + minutes)"
  from shift_start_pos[OF assms] obtain g where
    run: "shift_start memory w hours minutes = (w\<lparr>schedule := BoolArray g\<rparr>, None)"
    and vg: "valid_ndarray g"
    and dv: "\<forall>d<7. day_vector g d
                  = map2 (\<and>) (day_vector a d) (delayed_copy ?n (day_vector a d))" by blast
  have len: "length (day_vector a d) = 1440" if "d < 7" for d
    using assms(2) that by (simp add: length_day_vector valid_ndarray_def)
  have pt: "day_vector g d ! i
                  = (day_vector a d ! i \<and> hours * 60 + minutes \<le> int i
                     \<and> day_vector a d ! (i - ?n))" if "d < 7" "i < 1440" for d i
  proof -
    have "day_vector g d ! i
          = (day_vector a d ! i \<and> ?n \<le> i \<and> day_vector a d ! (i - ?n))"
      using dv that len[OF that(1)] masked_nth[of i "day_vector a d" ?n] by simp
    moreover have "?n \<le> i \<longleftrightarrow> hours * 60 + minutes \<le> int i"
      using assms(3) by linarith
    ultimately show ?thesis by blast
  qed
  have runs: "start_delayed ?n (day_vector g d) x y"
    if "d < 7" "y \<le> 1440" "list_all (\<lambda>i. day_vector a d ! i) [x..<y]"
      "list_all (\<lambda>j. \<not> day_vector a d ! j) [x - ?n..<x]" for d x y
  proof -
    have "y \<le> length (day_vector a d)" using that(2) len[OF that(1)] by simp
    from masked_run[OF this that(3,4)] dv that(1) show ?thesis by simp
  qed
  have long: "day_vector g d = replicate 1440 False"
    if "1440 \<le> hours * 60 + minutes" "d < 7" for d
  proof -
    have "length (day_vector a d) \<le> ?n" using that len[OF that(2)] by simp
    then have "delayed_copy ?n (day_vector a d) = replicate (length (day_vector a d)) False"
      by (rule delayed_copy_long)
    then show ?thesis using dv that(2) len[OF that(2)] map2_and_False[of "day_vector a d"]
      by simp
  qed
  from run vg dv pt runs long show ?thesis by blast
qed

text \<open>
  A shift the machine cannot allocate raises on the first day and leaves the grid as
  it was.
\<close>

lemma shift_start_too_large:
  assumes "valid_grid (schedule w)" and "0 \<le> hours * 60 + minutes"
    and "int memory < hours * 60 + minutes \<or> 2 ^ 63 \<le> hours * 60 + minutes"
  shows "\<exists>e. shift_start memory w hours minutes = (w, Some e)"
proof -
  let ?n = "nat (hours * 60 + minutes)"
  have "int ?n = hours * 60 + minutes" using assms(2) by simp
  then have "int memory < int ?n \<or> (2::int) ^ 63 \<le> int ?n" using assms(3) by simp
  then have "memory < ?n \<or> 2 ^ 63 \<le> ?n"
    by (metis of_nat_less_iff of_nat_le_iff of_nat_numeral of_nat_power)
  then have "\<exists>e. np_zeros_sized memory ?n = Inl e"
    by (cases "2 ^ 63 \<le> ?n") (simp_all add: np_zeros_sized_def)
  then obtain e where z: "np_zeros_sized memory ?n = Inl e" by (elim exE)
  have grid: "shift_grid memory dt ?n a = (a, Some e)" if "valid_ndarray a" for dt and a :: "'a ndarray"
  proof -
    have "np_reshape a [7, 24 * 60] = Inr \<lparr>shape = [7, 1440], cells = cells a\<rparr>"
      using that by (simp add: np_reshape_def valid_ndarray_def)
    then show ?thesis using z unfolding shift_grid_def upt_0_7 by simp
  qed
  show ?thesis
  proof (cases "schedule w")
    case (BoolArray a)
    then show ?thesis using assms(1,2) grid[of a bool_dtype] by (simp add: shift_start_def)
  next
    case (IntArray a)
    then show ?thesis using assms(1,2) grid[of a int_dtype] by (simp add: shift_start_def)
  next
    case (FloatArray a)
    then show ?thesis using assms(1,2) grid[of a float_dtype] by (simp add: shift_start_def)
  qed
qed

subsection \<open>Inverting a grid of bools\<close>

text \<open>
  For a schedule with a valid grid of bools whose timezone is set to a name the
  database resolves (the database also resolving \<open>UTC\<close>, the default of
  \<^verbatim>\<open>from_raw\<close>), \<^verbatim>\<open>invert\<close> returns a schedule whose grid has the same shape and
  the negated cells, whose timezone is that of the original and whose working-day
  predicate is unset; inverting the result gives back the original grid.
\<close>

lemma invert_negates:
  assumes "schedule w = BoolArray g" and "valid_ndarray g" and "db ''UTC'' = Some u"
    and "timezone w = Some name" and "db name = Some z"
  shows "\<exists>w' w''. invert db w = Inr w'
           \<and> schedule w' = BoolArray \<lparr>shape = shape g, cells = map Not (cells g)\<rparr>
           \<and> timezone w' = timezone w \<and> pytz w' = Some z
           \<and> is_working_day_fun w' = None
           \<and> invert db w' = Inr w'' \<and> schedule w'' = schedule w"
proof -
  let ?g' = "g\<lparr>cells := map Not (cells g)\<rparr>"
  let ?w' = "\<lparr>schedule = BoolArray ?g', timezone = Some name,
              pytz = Some z, is_working_day_fun = None\<rparr>"
  let ?w'' = "\<lparr>schedule = BoolArray (?g'\<lparr>cells := map Not (cells ?g')\<rparr>), timezone = Some name,
              pytz = Some z, is_working_day_fun = None\<rparr>"
  have sh: "shape g = [7, 24, 60]" using assms(2) by (simp add: valid_ndarray_def)
  have 1: "invert db w = Inr ?w'" using assms(1) sh assms(3-5) by (rule invert_known)
  have "invert db ?w' = Inr ?w''"
    by (rule invert_known[where g = ?g' and u = u]) (simp_all add: sh assms(3,5))
  moreover have "?g'\<lparr>cells := map Not (cells ?g')\<rparr> = g" by (simp add: comp_def)
  ultimately have 2: "invert db ?w' = Inr \<lparr>schedule = BoolArray g, timezone = Some name,
              pytz = Some z, is_working_day_fun = None\<rparr>" by simp
  let ?w2 = "\<lparr>schedule = BoolArray g, timezone = Some name, pytz = Some z,
              is_working_day_fun = None\<rparr>"
  show ?thesis
  proof (rule exI[of _ ?w'], rule exI[of _ ?w2])
    show "invert db w = Inr ?w'
           \<and> schedule ?w' = BoolArray \<lparr>shape = shape g, cells = map Not (cells g)\<rparr>
           \<and> timezone ?w' = timezone w \<and> pytz ?w' = Some z
           \<and> is_working_day_fun ?w' = None
           \<and> invert db ?w' = Inr ?w2 \<and> schedule ?w2 = schedule w"
      using 1 2 assms(1,4) by simp
  qed
qed

subsection \<open>Schedules built day by day\<close>

text \<open>
  \<^verbatim>\<open>from_to\<close> returns a schedule with a valid grid of bools and no timezone.
\<close>

lemma set_days_bool:
  "schedule w = BoolArray g \<Longrightarrow> valid_ndarray g \<Longrightarrow> list_all (\<lambda>d. d < 7) days \<Longrightarrow>
   set_days w days s = Inr w' \<Longrightarrow>
   timezone w' = timezone w \<and> (\<exists>g'. schedule w' = BoolArray g' \<and> valid_ndarray g')"
proof (induction days arbitrary: w g)
  case Nil
  then show ?case by simp
next
  case (Cons day rest)
  from Cons.prems(3) have day: "day < 7" and rest: "list_all (\<lambda>d. d < 7) rest" by simp_all
  from Cons.prems(4) obtain w1 where
    1: "set_day_schedule w (int day) s = (w1, None)" and 2: "set_days w1 rest s = Inr w'"
    by (auto split: prod.splits option.splits)
  from set_day_schedule_cases[OF Cons.prems(1,2) day, of s] 1 obtain v where
    lv: "length v = 1440"
    and w1: "w1 = w\<lparr>schedule := BoolArray (g\<lparr>cells := take (day * 1440) (cells g) @ v
                      @ drop (Suc day * 1440) (cells g)\<rparr>)\<rparr>"
    by auto
  let ?g1 = "g\<lparr>cells := take (day * 1440) (cells g) @ v @ drop (Suc day * 1440) (cells g)\<rparr>"
  have s1: "schedule w1 = BoolArray ?g1" and t1: "timezone w1 = timezone w" using w1 by simp_all
  have v1: "valid_ndarray ?g1" using Cons.prems(2) day lv by (rule valid_ndarray_splice)
  from Cons.IH[OF s1 v1 rest 2] t1 show ?case by simp
qed

lemma from_to_bool:
  assumes "from_to day_start day_end s = Inr w"
  shows "timezone w = None \<and> (\<exists>g. schedule w = BoolArray g \<and> valid_ndarray g)"
proof -
  have days: "list_all (\<lambda>d. d < 7) [day_value day_start..<day_value day_end + 1]"
    using day_value_le[of day_end] by (auto simp add: list_all_iff)
  have "schedule init = BoolArray (np_zeros [7, 24, 60])" "timezone init = None"
    by (simp_all add: init_def)
  with set_days_bool[OF _ valid_ndarray_zeros days, of init s w] assms show ?thesis
    by (simp add: from_to_def)
qed

lemma invert_from_to:
  assumes "from_to day_start day_end s = Inr w" and "db ''UTC'' = Some u"
  shows "invert db w = Inl UnknownTimeZoneError"
proof -
  from from_to_bool[OF assms(1)] obtain g where
    "timezone w = None" "schedule w = BoolArray g" "valid_ndarray g" by blast
  then show ?thesis using assms(2)
    by (intro invert_unset_timezone_bool[where g = g and u = u]) (simp_all add: valid_ndarray_def)
qed

subsection \<open>Setters that raise\<close>

text \<open>
  On a schedule with a valid grid of bools, a per-day setter raises exactly when
  \<^verbatim>\<open>to_vector\<close> raises on the day schedule, with the same exception, and the schedule
  is then what it was before the call: no cell was assigned.
\<close>

lemma setter_raises_atomically:
  assumes "setter \<in> set [monday, tuesday, wednesday, thursday, friday, saturday, sunday]"
    and "schedule w = BoolArray g" and "valid_ndarray g"
  shows "(to_vector day_sched = Inl e \<longrightarrow> setter w day_sched = (w, Some e))
       \<and> (setter w day_sched = (w', Some e') \<longrightarrow> w' = w \<and> to_vector day_sched = Inl e')"
proof -
  have atomic: "(to_vector day_sched = Inl e \<longrightarrow> set_day_schedule w (int d) day_sched = (w, Some e))
       \<and> (set_day_schedule w (int d) day_sched = (w', Some e')
            \<longrightarrow> w' = w \<and> to_vector day_sched = Inl e')" if "d < 7" for d
    using set_day_schedule_cases[OF assms(2,3) that, of day_sched] by auto
  from assms(1) have "setter = monday \<or> setter = tuesday \<or> setter = wednesday
    \<or> setter = thursday \<or> setter = friday \<or> setter = saturday \<or> setter = sunday"
    by (simp only: list.set insert_iff empty_iff simp_thms)
  then consider "setter = monday" | "setter = tuesday" | "setter = wednesday"
    | "setter = thursday" | "setter = friday" | "setter = saturday" | "setter = sunday"
    by blast
  then show ?thesis
  proof cases
    case 1
    then show ?thesis using atomic[of 0] by (simp add: monday_def)
  next
    case 2
    then show ?thesis using atomic[of 1] by (simp add: tuesday_def)
  next
    case 3
    then show ?thesis using atomic[of 2] by (simp add: wednesday_def)
  next
    case 4
    then show ?thesis using atomic[of 3] by (simp add: thursday_def)
  next
    case 5
    then show ?thesis using atomic[of 4] by (simp add: friday_def)
  next
    case 6
    then show ?thesis using atomic[of 5] by (simp add: saturday_def)
  next
    case 7
    then show ?thesis using atomic[of 6] by (simp add: sunday_def)
  qed
qed

subsection \<open>The values of a grid\<close>

text \<open>
  A grid of integers of ones, as a caller can pass it, is accepted; inverting the
  schedule raises.
\<close>

lemma invert_int_ones:
  "from_raw sample_tzdb (RawArray int_ones_grid) ''UTC''
     = Inr \<lparr>schedule = int_ones_grid, timezone = Some ''UTC'', pytz = Some (\<lambda>instant. 0),
            is_working_day_fun = None\<rparr>
   \<and> invert sample_tzdb \<lparr>schedule = int_ones_grid, timezone = Some ''UTC'',
                          pytz = Some (\<lambda>instant. 0), is_working_day_fun = None\<rparr>
     = Inl (AssertionError ''weekly schedule should have positive values'')"
proof
  have z: "sample_tzdb ''UTC'' = Some (\<lambda>instant. 0)" by (simp add: sample_tzdb_def)
  have sh: "np_shape int_ones_grid = [7, 24, 60]" by (simp add: int_ones_grid_def)
  have vals: "list_all (\<lambda>x. 0 \<le> x \<and> x \<le> 1) (np_values int_ones_grid)"
    by (simp add: int_ones_grid_def list_all_iff)
  show "from_raw sample_tzdb (RawArray int_ones_grid) ''UTC''
     = Inr \<lparr>schedule = int_ones_grid, timezone = Some ''UTC'', pytz = Some (\<lambda>instant. 0),
            is_working_day_fun = None\<rparr>"
    using z sh vals by (rule from_raw_array)
  let ?a = "\<lparr>shape = [7, 24, 60], cells = replicate (7 * 24 * 60) (1::int)\<rparr>"
  show "invert sample_tzdb \<lparr>schedule = int_ones_grid, timezone = Some ''UTC'',
                          pytz = Some (\<lambda>instant. 0), is_working_day_fun = None\<rparr>
     = Inl (AssertionError ''weekly schedule should have positive values'')"
    by (rule invert_int[where a = ?a and u = "\<lambda>instant. 0"])
       (simp_all add: int_ones_grid_def valid_ndarray_def list_all_iff z)
qed

text \<open>
  Every operation keeps the values of the grid between 0 and 1: a setter writes only
  0 and 1, and \<^verbatim>\<open>shift_start\<close> writes only cells combined with \<^verbatim>\<open>&\<close> from 0 and
  cells of the grid.
\<close>

lemma getitem_cells: "getitem a i = Inr row \<Longrightarrow> set (cells row) \<subseteq> set (cells a)"
  by (auto simp add: getitem_def split: list.splits sum.splits
      dest!: in_set_takeD in_set_dropD)

lemma setitem_cells:
  "setitem a i v = Inr a' \<Longrightarrow> set (cells a') \<subseteq> set (cells a) \<union> set (cells v)"
  by (auto simp add: setitem_def split: list.splits sum.splits if_splits
      dest!: in_set_takeD in_set_dropD)

lemma np_and_cells:
  assumes "np_and dt xs ys = Inr zs" "list_all P xs" "list_all P ys"
    and "\<And>f x y. bit_and dt = Some f \<Longrightarrow> P x \<Longrightarrow> P y \<Longrightarrow> P (f x y)"
  shows "list_all P zs"
proof -
  from assms(1) obtain f where f: "bit_and dt = Some f"
    by (cases "bit_and dt") (simp_all add: np_and_def)
  have P: "P (f x y)" if "x \<in> set xs" "y \<in> set ys" for x y
    using assms(2,3) assms(4)[OF f] that by (simp add: list_all_iff)
  consider "length xs = length ys" | "length xs \<noteq> length ys" "length ys = 1"
    | "length xs \<noteq> length ys" "length ys \<noteq> 1" "length xs = 1"
    | "length xs \<noteq> length ys" "length ys \<noteq> 1" "length xs \<noteq> 1" by blast
  then show ?thesis
  proof cases
    case 1
    then have "zs = map2 f xs ys" using assms(1) f by (simp add: np_and_def)
    then show ?thesis using P by (auto simp add: list_all_iff dest: set_zip_leftD set_zip_rightD)
  next
    case 2
    then have zs: "zs = map (\<lambda>x. f x (hd ys)) xs" using assms(1) f by (simp add: np_and_def)
    have "hd ys \<in> set ys" using 2(2) by (cases ys) simp_all
    then show ?thesis using P zs by (auto simp add: list_all_iff)
  next
    case 3
    then have zs: "zs = map (\<lambda>y. f (hd xs) y) ys" using assms(1) f by (simp add: np_and_def)
    have "hd xs \<in> set xs" using 3(3) by (cases xs) simp_all
    then show ?thesis using P zs by (auto simp add: list_all_iff)
  next
    case 4
    then show ?thesis using assms(1) f by (simp add: np_and_def)
  qed
qed

lemma shift_days_cells:
  assumes zero: "P (from_bool dt False)"
    and op: "\<And>f x y. bit_and dt = Some f \<Longrightarrow> P x \<Longrightarrow> P y \<Longrightarrow> P (f x y)"
  shows "list_all P (cells ds) \<Longrightarrow> shift_days memory dt n ds days = (ds', r) \<Longrightarrow>
         list_all P (cells ds')"
proof (induction days arbitrary: ds)
  case Nil
  then show ?case by simp
next
  case (Cons day rest)
  show ?case
  proof (cases "np_zeros_sized memory n")
    case (Inl e)
    then show ?thesis using Cons.prems by simp
  next
    case zeros: (Inr zeros)
    have zs: "set zeros \<subseteq> {False}"
      using zeros by (auto simp add: np_zeros_sized_def split: if_splits)
    show ?thesis
    proof (cases "getitem ds (int day)")
      case (Inl e)
      then show ?thesis using Cons.prems zeros by simp
    next
      case row: (Inr row)
      let ?c = "map (from_bool dt) zeros @ cells row"
      let ?s = "take (slice_bound (length ?c) (- int n)) ?c"
      have prow: "list_all P (cells row)"
        using getitem_cells[OF row] Cons.prems(1) by (auto simp add: list_all_iff)
      have "list_all P ?c" using prow zs zero by (auto simp add: list_all_iff)
      then have ps: "list_all P ?s" by (auto simp add: list_all_iff dest: in_set_takeD)
      show ?thesis
      proof (cases "np_and dt (cells row) ?s")
        case (Inl e)
        then show ?thesis using Cons.prems zeros row by (simp add: Let_def)
      next
        case masked: (Inr masked)
        have pm: "list_all P masked" using masked prow ps op by (rule np_and_cells)
        show ?thesis
        proof (cases "setitem ds (int day) \<lparr>shape = [length masked], cells = masked\<rparr>")
          case (Inl e)
          then show ?thesis using Cons.prems zeros row masked by (simp add: Let_def)
        next
          case (Inr ds1)
          have 1: "list_all P (cells ds1)"
            using setitem_cells[OF Inr] Cons.prems(1) pm by (auto simp add: list_all_iff)
          have "shift_days memory dt n ds1 rest = (ds', r)"
            using Cons.prems(2) zeros row masked Inr by (simp add: Let_def)
          from Cons.IH[OF 1 this] show ?thesis .
        qed
      qed
    qed
  qed
qed

lemma shift_grid_cells:
  assumes "P (from_bool dt False)"
    and "\<And>f x y. bit_and dt = Some f \<Longrightarrow> P x \<Longrightarrow> P y \<Longrightarrow> P (f x y)"
    and "list_all P (cells a)" and "shift_grid memory dt n a = (g, r)"
  shows "list_all P (cells g)"
proof (cases "np_reshape a [7, 24 * 60]")
  case (Inl e)
  then show ?thesis using assms(3,4) by (simp add: shift_grid_def)
next
  case (Inr ds)
  then have cs: "cells ds = cells a" by (auto simp add: np_reshape_def split: if_splits)
  obtain ds' r' where sd: "shift_days memory dt n ds [0..<7] = (ds', r')"
    by (cases "shift_days memory dt n ds [0..<7]")
  have "list_all P (cells ds')"
    using shift_days_cells[of P dt ds memory n "[0..<7]" ds' r'] assms(1,2,3) cs sd by simp
  then show ?thesis using assms(4) Inr sd
    by (auto simp add: shift_grid_def np_reshape_def split: option.splits if_splits)
qed

lemma and_unit:
  fixes x y :: int
  assumes "0 \<le> x" "x \<le> 1" "0 \<le> y" "y \<le> 1"
  shows "0 \<le> x AND y \<and> x AND y \<le> 1"
proof -
  have "x = 0 \<or> x = 1" "y = 0 \<or> y = 1" using assms by linarith+
  then show ?thesis by auto
qed

lemma shift_start_values:
  assumes "list_all (\<lambda>x. 0 \<le> x \<and> x \<le> 1) (np_values (schedule w))"
    and "shift_start memory w hours minutes = (w', r)"
  shows "list_all (\<lambda>x. 0 \<le> x \<and> x \<le> 1) (np_values (schedule w'))"
proof (cases "hours * 60 + minutes < 0")
  case True
  then show ?thesis using assms by (simp add: shift_start_def)
next
  case False
  let ?n = "nat (hours * 60 + minutes)"
  show ?thesis
  proof (cases "schedule w")
    case (BoolArray a)
    obtain g e where sg: "shift_grid memory bool_dtype ?n a = (g, e)"
      by (cases "shift_grid memory bool_dtype ?n a")
    have "schedule w' = BoolArray g" using assms(2) False BoolArray sg
      by (auto simp add: shift_start_def Let_def split: option.splits)
    then show ?thesis by (simp add: list_all_iff)
  next
    case (IntArray a)
    obtain g e where sg: "shift_grid memory int_dtype ?n a = (g, e)"
      by (cases "shift_grid memory int_dtype ?n a")
    have "list_all (\<lambda>x. 0 \<le> x \<and> x \<le> 1) (cells a)"
      using assms(1) IntArray by (simp add: list_all_iff)
    then have "list_all (\<lambda>x. 0 \<le> x \<and> x \<le> 1) (cells g)"
      using sg by (intro shift_grid_cells[where dt = int_dtype and a = a and g = g])
        (simp_all add: and_unit)
    moreover have "schedule w' = IntArray g" using assms(2) False IntArray sg
      by (auto simp add: shift_start_def Let_def split: option.splits)
    ultimately show ?thesis by (simp add: list_all_iff)
  next
    case (FloatArray a)
    obtain g e where sg: "shift_grid memory float_dtype ?n a = (g, e)"
      by (cases "shift_grid memory float_dtype ?n a")
    have "list_all (\<lambda>x. 0 \<le> x \<and> x \<le> 1) (cells a)"
      using assms(1) FloatArray by simp
    then have "list_all (\<lambda>x. 0 \<le> x \<and> x \<le> 1) (cells g)"
      using sg by (intro shift_grid_cells[where dt = float_dtype and a = a and g = g]) simp_all
    moreover have "schedule w' = FloatArray g" using assms(2) False FloatArray sg
      by (auto simp add: shift_start_def Let_def split: option.splits)
    ultimately show ?thesis by simp
  qed
qed

lemma np_setitem_values:
  assumes "np_setitem a i v = Inr a'" "list_all (\<lambda>x. 0 \<le> x \<and> x \<le> 1) (np_values a)"
  shows "list_all (\<lambda>x. 0 \<le> x \<and> x \<le> 1) (np_values a')"
proof (cases a)
  case (BoolArray b)
  then obtain b' where "a' = BoolArray b'"
    using assms(1) by (cases "setitem b i v") auto
  then show ?thesis by (simp add: list_all_iff)
next
  case (IntArray b)
  then obtain b' where b': "setitem b i (astype int_dtype v) = Inr b'" "a' = IntArray b'"
    using assms(1) by (cases "setitem b i (astype int_dtype v)") auto
  have old: "\<forall>x\<in>set (cells b). 0 \<le> x \<and> x \<le> 1"
    using assms(2) IntArray by (simp add: list_all_iff)
  have "0 \<le> x \<and> x \<le> 1" if "x \<in> set (cells b')" for x
  proof -
    from setitem_cells[OF b'(1)] that have "x \<in> set (cells b) \<or> x = 0 \<or> x = 1" by auto
    then show ?thesis using old by auto
  qed
  then show ?thesis using b'(2) by (simp add: list_all_iff)
next
  case (FloatArray b)
  then obtain b' where b': "setitem b i (astype float_dtype v) = Inr b'" "a' = FloatArray b'"
    using assms(1) by (cases "setitem b i (astype float_dtype v)") auto
  have old: "\<forall>x\<in>set (cells b). 0 \<le> x \<and> x \<le> 1"
    using assms(2) FloatArray by (simp add: list_all_iff)
  have "0 \<le> x \<and> x \<le> 1" if "x \<in> set (cells b')" for x
  proof -
    from setitem_cells[OF b'(1)] that have "x \<in> set (cells b) \<or> x = 0 \<or> x = 1" by auto
    then show ?thesis using old by auto
  qed
  then show ?thesis using b'(2) by (simp add: list_all_iff)
qed

lemma set_day_schedule_values:
  assumes "list_all (\<lambda>x. 0 \<le> x \<and> x \<le> 1) (np_values (schedule w))"
    and "set_day_schedule w d s = (w', r)"
  shows "list_all (\<lambda>x. 0 \<le> x \<and> x \<le> 1) (np_values (schedule w'))"
proof (cases "to_vector s")
  case (Inl e)
  then show ?thesis using assms by (simp add: set_day_schedule_def)
next
  case (Inr v)
  show ?thesis
  proof (cases "np_setitem (schedule w) d (reshape_24_60 v)")
    case (Inl e)
    then show ?thesis using assms Inr by (simp add: set_day_schedule_def)
  next
    case a': (Inr a')
    from np_setitem_values[OF a' assms(1)] show ?thesis
      using assms(2) Inr a' by (auto simp add: set_day_schedule_def)
  qed
qed

lemma invert_values:
  assumes "invert db w = Inr w'"
  shows "list_all (\<lambda>x. 0 \<le> x \<and> x \<le> 1) (np_values (schedule w'))"
proof -
  from assms obtain a w1 where
    1: "from_raw db (RawArray a) ''UTC'' = Inr w1"
    and 2: "returning (for_timezone db w1 (timezone w)) = Inr w'"
    by (auto simp add: invert_def split: sum.splits)
  from from_raw_values[OF 1] returning_schedule[OF 2] show ?thesis by simp
qed

text \<open>
  Every schedule a caller can hold has values between 0 and 1 in its grid: a grid of
  bools or of integers holds 0 and 1 only, and only a caller's grid of floats can hold
  another value.
\<close>

lemma reachable_values:
  "reachable db w \<Longrightarrow> list_all (\<lambda>x. 0 \<le> x \<and> x \<le> 1) (np_values (schedule w))"
proof (induction rule: reachable.induct)
  case reach_init
  show ?case by (simp add: init_def list_all_iff)
next
  case (reach_never w)
  then show ?case
    using returning_schedule[of db init "Some ''UTC''" w]
    by (simp add: never_def init_def list_all_iff)
next
  case (reach_always w)
  then obtain w1 where
    1: "from_raw db (RawArray (BoolArray (np_ones [7, 24, 60]))) ''UTC'' = Inr w1"
    and 2: "returning (for_timezone db w1 (Some ''UTC'')) = Inr w"
    by (auto simp add: always_def split: sum.splits)
  from from_raw_values[OF 1] returning_schedule[OF 2] show ?case by simp
next
  case (reach_from_raw_dict d tz w)
  then show ?case by (rule from_raw_values)
next
  case (reach_from_raw_array a tz w)
  then show ?case using from_raw_values by blast
next
  case (reach_from_to day_start day_end day_sched w)
  from from_to_bool[OF this] show ?case by (auto simp add: list_all_iff)
next
  case (reach_invert w w')
  then show ?case using invert_values by blast
next
  case (reach_clone w w')
  then show ?case using clone_schedule by fastforce
next
  case (reach_for_timezone w zone w' r)
  then show ?case using for_timezone_schedule by fastforce
next
  case (reach_calendar w c w' r)
  then show ?case using calendar_schedule by fastforce
next
  case (reach_monday w day_sched w' r)
  then show ?case using set_day_schedule_values[of w _ day_sched w' r] by (simp add: monday_def)
next
  case (reach_tuesday w day_sched w' r)
  then show ?case using set_day_schedule_values[of w _ day_sched w' r] by (simp add: tuesday_def)
next
  case (reach_wednesday w day_sched w' r)
  then show ?case using set_day_schedule_values[of w _ day_sched w' r] by (simp add: wednesday_def)
next
  case (reach_thursday w day_sched w' r)
  then show ?case using set_day_schedule_values[of w _ day_sched w' r] by (simp add: thursday_def)
next
  case (reach_friday w day_sched w' r)
  then show ?case using set_day_schedule_values[of w _ day_sched w' r] by (simp add: friday_def)
next
  case (reach_saturday w day_sched w' r)
  then show ?case using set_day_schedule_values[of w _ day_sched w' r] by (simp add: saturday_def)
next
  case (reach_sunday w day_sched w' r)
  then show ?case using set_day_schedule_values[of w _ day_sched w' r] by (simp add: sunday_def)
next
  case (reach_shift_start w memory hours minutes w' r)
  then show ?case using shift_start_values by blast
qed

lemma reachable_zero_one:
  assumes "reachable db w"
  shows "(\<forall>g. schedule w = IntArray g \<longrightarrow> list_all (\<lambda>x. x = 0 \<or> x = 1) (cells g))
       \<and> (\<forall>g. schedule w = FloatArray g \<longrightarrow> list_all (\<lambda>x. 0 \<le> x \<and> x \<le> 1) (cells g))"
proof (intro conjI allI impI)
  fix g assume "schedule w = IntArray g"
  then have "\<forall>x\<in>set (cells g). 0 \<le> x \<and> x \<le> 1"
    using reachable_values[OF assms] by (simp add: list_all_iff)
  then have "\<forall>x\<in>set (cells g). x = 0 \<or> x = 1" by (metis dual_order.antisym int_one_le_iff_zero_less order_less_le)
  then show "list_all (\<lambda>x. x = 0 \<or> x = 1) (cells g)" by (simp add: list_all_iff)
next
  fix g assume "schedule w = FloatArray g"
  then show "list_all (\<lambda>x. 0 \<le> x \<and> x \<le> 1) (cells g)"
    using reachable_values[OF assms] by simp
qed

section \<open>The claims\<close>

text \<open>
  C2. A shift of zero minutes passes the assertion on the total shift, and the first
  day of the loop then raises: the slice \<^verbatim>\<open>shifted_slots[:-0]\<close> is empty and cannot be
  combined with the day's 1440 cells, which is a \<open>ValueError\<close> on a grid of bools or
  integers (on a grid of floats \<^verbatim>\<open>&\<close> raises \<open>TypeError\<close> first). The grid is left as
  it was.
\<close>

theorem shift_start_zero_raises:
  "valid_grid (schedule w) \<Longrightarrow>
   shift_start memory w 0 0
   = (w, Some (case schedule w of
                 FloatArray f \<Rightarrow> TypeError
               | _ \<Rightarrow> ValueError ''operands could not be broadcast together''))"
  by (rule shift_start_zero)

theorem shift_start_zero_raises_witness:
  "shift_start sample_memory init 0 0
   = (init, Some (ValueError ''operands could not be broadcast together''))"
  using shift_start_zero_raises[of init sample_memory]
  by (simp add: valid_grid_init) (simp add: init_def)

text \<open>
  C3. A Monday with the slots 00:00 to 01:00 and 01:30 to 03:00 is shifted by one hour.
  The run from minute 90 to minute 180 does not keep its end with its start delayed:
  it is still on at minute 90 (minute 30 was on), off at minute 120 and on again at
  minute 150, so it comes out as the two runs 01:30 to 02:00 and 02:30 to 03:00.
\<close>

theorem shift_start_splits_run:
  "from_raw sample_tzdb (RawDict close_slots) ''UTC'' = Inr close_slots_schedule
   \<and> schedule close_slots_schedule = BoolArray close_slots_grid
   \<and> true_run (day_vector close_slots_grid 0) 90 180
   \<and> (\<exists>g. shift_start sample_memory close_slots_schedule 1 0
             = (close_slots_schedule\<lparr>schedule := BoolArray g\<rparr>, None)
          \<and> \<not> start_delayed 60 (day_vector g 0) 90 180
          \<and> day_vector g 0 ! 90 \<and> \<not> day_vector g 0 ! 120 \<and> day_vector g 0 ! 150
          \<and> true_run (day_vector g 0) 90 120 \<and> true_run (day_vector g 0) 150 180)"
proof -
  let ?v = "vector_of (Multi [((0, 0), (1, 0)), ((1, 30), (3, 0))])"
  have lv: "length ?v = 1440" by (rule close_slots_vector(2))
  have nth: "?v ! i = (i < 60 \<or> (90 \<le> i \<and> i < 180))" if "i < 1440" for i
    using that by (rule close_slots_vector(3))
  have pos: "(0::int) < 1 * 60 + 0" by simp
  have mem: "(1::int) * 60 + 0 \<le> int sample_memory" "(1::int) * 60 + 0 < 2 ^ 63"
    by (simp_all add: sample_memory_def)
  from shift_start_pos[OF close_slots_monday(1,2) pos mem] obtain g where
    run: "shift_start sample_memory close_slots_schedule 1 0
          = (close_slots_schedule\<lparr>schedule := BoolArray g\<rparr>, None)"
    and vg: "valid_ndarray g"
    and dv: "\<forall>d<7. day_vector g d
                  = map2 (\<and>) (day_vector close_slots_grid d)
                      (delayed_copy (nat (1 * 60 + 0)) (day_vector close_slots_grid d))"
    by blast
  have z: "(0::nat) < 7" by simp
  have g0: "day_vector g 0 = map2 (\<and>) ?v (delayed_copy 60 ?v)"
    using dv[rule_format, OF z] close_slots_monday(3) by simp
  have lg: "length (day_vector g 0) = 1440"
    using vg by (simp add: length_day_vector valid_ndarray_def)
  have "day_vector g 0 ! i = (?v ! i \<and> 60 \<le> i \<and> ?v ! (i - 60))" if "i < 1440" for i
    using g0 masked_nth[of i ?v 60] that lv by simp
  then have after: "day_vector g 0 ! i = ((90 \<le> i \<and> i < 120) \<or> (150 \<le> i \<and> i < 180))"
    if "i < 1440" for i
    using that nth[of i] nth[of "i - 60"] by auto
  have a90: "day_vector g 0 ! 90" using after[of 90] by simp
  have a120: "\<not> day_vector g 0 ! 120" using after[of 120] by simp
  have a150: "day_vector g 0 ! 150" using after[of 150] by simp
  have tr: "true_run (day_vector close_slots_grid 0) 90 180"
    unfolding close_slots_monday(3) true_run_def list_all_iff set_upt
    using lv nth[of 89] nth[of 180] nth by auto
  have tr1: "true_run (day_vector g 0) 90 120"
    unfolding true_run_def list_all_iff set_upt
    using lg after[of 89] after[of 120] after by auto
  have tr2: "true_run (day_vector g 0) 150 180"
    unfolding true_run_def list_all_iff set_upt
    using lg after[of 149] after[of 180] after by auto
  have "(90::nat) \<in> set [90..<180]" unfolding set_upt by simp
  moreover have "\<not> (day_vector g 0 ! 90 = (90 + 60 \<le> (90::nat)))" using a90 by simp
  ultimately have nd: "\<not> start_delayed 60 (day_vector g 0) 90 180"
    unfolding start_delayed_def list_all_iff by blast
  from run nd a90 a120 a150 tr1 tr2
  have "\<exists>g. shift_start sample_memory close_slots_schedule 1 0
             = (close_slots_schedule\<lparr>schedule := BoolArray g\<rparr>, None)
          \<and> \<not> start_delayed 60 (day_vector g 0) 90 180
          \<and> day_vector g 0 ! 90 \<and> \<not> day_vector g 0 ! 120 \<and> day_vector g 0 ! 150
          \<and> true_run (day_vector g 0) 90 120 \<and> true_run (day_vector g 0) 150 180"
    by (intro exI[of _ g] conjI)
  with from_raw_close_slots close_slots_monday(1) tr show ?thesis by (intro conjI)
qed

text \<open>
  C5. When a working-day predicate is set and is false at the datetime, \<^verbatim>\<open>is_on_at\<close>
  returns \<open>False\<close> whatever the grid holds: the grid is not read.
\<close>

theorem is_on_at_not_working_day:
  "is_working_day_fun w = Some f \<Longrightarrow> \<not> f dt \<Longrightarrow>
   is_on_at w (PyDatetime dt) = Inr (BoolScalar False)"
  by (simp add: is_on_at_def)

theorem is_on_at_not_working_day_witness:
  "is_on_at (init\<lparr>schedule := BoolArray (np_ones [7, 24, 60]),
                  is_working_day_fun := Some (\<lambda>d. False)\<rparr>)
     (PyDatetime \<lparr>ordinal = 1, hour = 10, minute = 0, second = 0, utcoffset = Some 0\<rparr>)
   = Inr (BoolScalar False)"
  using is_on_at_not_working_day[of
      "init\<lparr>schedule := BoolArray (np_ones [7, 24, 60]),
            is_working_day_fun := Some (\<lambda>d. False)\<rparr>"
      "\<lambda>d. False"
      "\<lparr>ordinal = 1, hour = 10, minute = 0, second = 0, utcoffset = Some 0\<rparr>"]
  by simp

text \<open>
  C6. The schedule built from \<^verbatim>\<open>{0: ((6, 0), (18, 0))}\<close> with timezone UTC is off on
  Monday at 05:59:00, on at 06:00:00, on at 17:59:59 and off at 18:00:00; the cells of
  its Monday that are on are exactly the minutes from 360 up to, not including, 1080.
\<close>

theorem office_hours_boundaries:
  "\<exists>w g. from_raw sample_tzdb (RawDict office_hours) ''UTC'' = Inr w
     \<and> is_on_at w (PyDatetime (monday_utc 5 59 0)) = Inr (BoolScalar False)
     \<and> is_on_at w (PyDatetime (monday_utc 6 0 0)) = Inr (BoolScalar True)
     \<and> is_on_at w (PyDatetime (monday_utc 17 59 59)) = Inr (BoolScalar True)
     \<and> is_on_at w (PyDatetime (monday_utc 18 0 0)) = Inr (BoolScalar False)
     \<and> schedule w = BoolArray g
     \<and> (\<forall>i<1440. day_vector g 0 ! i = (360 \<le> i \<and> i < 1080))"
proof -
  have z: "sample_tzdb ''UTC'' = Some (\<lambda>instant. 0)" by (simp add: sample_tzdb_def)
  let ?w = "\<lparr>schedule = BoolArray office_grid, timezone = Some ''UTC'',
             pytz = Some (\<lambda>instant. 0), is_working_day_fun = None\<rparr>"
  have "from_raw sample_tzdb (RawDict office_hours) ''UTC'' = Inr ?w"
    using z by (rule from_raw_office)
  moreover have "is_on_at ?w (PyDatetime (monday_utc 5 59 0)) = Inr (BoolScalar False)"
    by (simp add: is_on_at_office)
  moreover have "is_on_at ?w (PyDatetime (monday_utc 6 0 0)) = Inr (BoolScalar True)"
    by (simp add: is_on_at_office)
  moreover have "is_on_at ?w (PyDatetime (monday_utc 17 59 59)) = Inr (BoolScalar True)"
    by (simp add: is_on_at_office)
  moreover have "is_on_at ?w (PyDatetime (monday_utc 18 0 0)) = Inr (BoolScalar False)"
    by (simp add: is_on_at_office)
  moreover have "schedule ?w = BoolArray office_grid" by simp
  moreover have "\<forall>i<1440. day_vector office_grid 0 ! i = (360 \<le> i \<and> i < 1080)"
    by (simp add: office_grid_monday)
  ultimately show ?thesis by blast
qed

theorem office_hours_boundaries_witness:
  "\<exists>w g. from_raw sample_tzdb (RawDict office_hours) ''UTC'' = Inr w
     \<and> is_on_at w (PyDatetime (monday_utc 17 59 59)) = Inr (BoolScalar True)
     \<and> schedule w = BoolArray g
     \<and> day_vector g 0 ! 1079 \<and> \<not> day_vector g 0 ! 1080"
proof -
  from office_hours_boundaries obtain w g where
    "from_raw sample_tzdb (RawDict office_hours) ''UTC'' = Inr w"
    "is_on_at w (PyDatetime (monday_utc 17 59 59)) = Inr (BoolScalar True)"
    "schedule w = BoolArray g"
    "\<forall>i<1440. day_vector g 0 ! i = (360 \<le> i \<and> i < 1080)"
    by blast
  then have "from_raw sample_tzdb (RawDict office_hours) ''UTC'' = Inr w
     \<and> is_on_at w (PyDatetime (monday_utc 17 59 59)) = Inr (BoolScalar True)
     \<and> schedule w = BoolArray g
     \<and> day_vector g 0 ! 1079 \<and> \<not> day_vector g 0 ! 1080"
    by simp
  then show ?thesis by blast
qed

text \<open>
  C4 as stated fails: the schedule of the boundary scenario, in a timezone one hour
  ahead of UTC, is asked about Monday 05:30 UTC. Converted into the schedule's timezone
  that instant is Monday 06:30, whose cell is on; \<^verbatim>\<open>is_on_at\<close> reads the cell of
  Monday 05:30, which is off.
\<close>

theorem is_on_at_converts_counterexample:
  "from_raw sample_tzdb (RawDict office_hours) ''Etc/GMT-1''
     = Inr \<lparr>schedule = BoolArray office_grid, timezone = Some ''Etc/GMT-1'',
            pytz = Some (\<lambda>instant. 60), is_working_day_fun = None\<rparr>
   \<and> is_on_at \<lparr>schedule = BoolArray office_grid, timezone = Some ''Etc/GMT-1'',
            pytz = Some (\<lambda>instant. 60), is_working_day_fun = None\<rparr>
        (PyDatetime (monday_utc 5 30 0)) = Inr (BoolScalar False)
   \<and> cell_in_timezone \<lparr>schedule = BoolArray office_grid, timezone = Some ''Etc/GMT-1'',
            pytz = Some (\<lambda>instant. 60), is_working_day_fun = None\<rparr>
        (monday_utc 5 30 0) = Inr (BoolScalar True)"
proof -
  let ?w = "\<lparr>schedule = BoolArray office_grid, timezone = Some ''Etc/GMT-1'',
            pytz = Some (\<lambda>instant. 60), is_working_day_fun = None\<rparr>"
  have z: "sample_tzdb ''Etc/GMT-1'' = Some (\<lambda>instant. 60)" by (simp add: sample_tzdb_def)
  have 1: "from_raw sample_tzdb (RawDict office_hours) ''Etc/GMT-1'' = Inr ?w"
    using z by (rule from_raw_office)
  have 2: "is_on_at ?w (PyDatetime (monday_utc 5 30 0)) = Inr (BoolScalar False)"
    by (simp add: is_on_at_office)
  have conv: "astimezone (\<lambda>instant. 60) (monday_utc 5 30 0)
              = \<lparr>ordinal = 738193, hour = 6, minute = 30, second = 0, utcoffset = Some 60\<rparr>"
    by (simp add: astimezone_def monday_utc_def Let_def)
  have "is_on_weekly_schedule ?w (int 0) (int 6) (int 30)
        = Inr (BoolScalar (day_vector office_grid 0 ! (6 * 60 + 30)))"
    by (rule is_on_weekly_schedule_valid) (simp_all add: valid_office_grid)
  then have 3: "cell_in_timezone ?w (monday_utc 5 30 0) = Inr (BoolScalar True)"
    by (simp add: cell_in_timezone_def conv weekday_def office_grid_monday)
  from 1 2 3 show ?thesis by blast
qed

text \<open>
  C4, amended. For a schedule with a valid grid and no working-day predicate,
  \<^verbatim>\<open>is_on_at\<close> returns the cell at the datetime's own weekday, hour and minute,
  whatever the timezone of the schedule and the offset of the datetime.
\<close>

theorem is_on_at_own_fields:
  assumes "valid_grid (schedule w)" and "is_working_day_fun w = None" and "valid_datetime dt"
  shows "is_on_at w (PyDatetime dt)
           = Inr (item_at (schedule w) ((nat (weekday dt) * 24 + hour dt) * 60 + minute dt))
         \<and> is_on_at (w\<lparr>timezone := tz, pytz := z\<rparr>) (PyDatetime (dt\<lparr>utcoffset := off\<rparr>))
           = is_on_at w (PyDatetime dt)"
proof
  show "is_on_at w (PyDatetime dt)
         = Inr (item_at (schedule w) ((nat (weekday dt) * 24 + hour dt) * 60 + minute dt))"
    using assms by (rule is_on_at_item)
  show "is_on_at (w\<lparr>timezone := tz, pytz := z\<rparr>) (PyDatetime (dt\<lparr>utcoffset := off\<rparr>))
         = is_on_at w (PyDatetime dt)"
    using assms(1,2)
    by (simp add: is_on_at_def is_on_weekly_schedule_def weekday_def valid_grid_def
        split: sum.splits)
qed

theorem is_on_at_own_fields_witness:
  "is_on_at \<lparr>schedule = BoolArray office_grid, timezone = Some ''Etc/GMT-1'',
            pytz = Some (\<lambda>instant. 60), is_working_day_fun = None\<rparr>
        (PyDatetime (monday_utc 5 30 0))
   = Inr (BoolScalar
            (cells office_grid ! ((nat (weekday (monday_utc 5 30 0)) * 24 + 5) * 60 + 30)))"
  using is_on_at_own_fields[of "\<lparr>schedule = BoolArray office_grid,
            timezone = Some ''Etc/GMT-1'',
            pytz = Some (\<lambda>instant. 60), is_working_day_fun = None\<rparr>" "monday_utc 5 30 0"]
    valid_office_grid
  by (simp add: valid_datetime_def monday_utc_def)

text \<open>
  C7. On a schedule with a valid grid of bools and no timezone, as
  \<^verbatim>\<open>WeeklySchedule()\<close> and every result of \<^verbatim>\<open>from_to\<close> are, \<^verbatim>\<open>invert\<close> raises
  \<open>UnknownTimeZoneError\<close>: the inverted schedule is built and then given the timezone
  \<open>None\<close>.
\<close>

theorem invert_unset_timezone_raises:
  assumes "timezone w = None" and "schedule w = BoolArray g" and "valid_ndarray g"
    and "db ''UTC'' = Some u"
  shows "invert db w = Inl UnknownTimeZoneError"
  using assms
  by (intro invert_unset_timezone_bool[where g = g and u = u]) (simp_all add: valid_ndarray_def)

theorem invert_unset_timezone_raises_witness:
  "invert sample_tzdb init = Inl UnknownTimeZoneError"
  using invert_unset_timezone_raises[of init "np_zeros [7, 24, 60]" sample_tzdb "\<lambda>instant. 0"]
    valid_ndarray_zeros
  by (simp add: init_def sample_tzdb_def)

text \<open>
  C9. A caller's grid of floats whose cells are all 0.5 has the shape \<open>(7, 24, 60)\<close>
  and values between 0 and 1, which is all \<^verbatim>\<open>_validate\<close> checks: \<^verbatim>\<open>from_raw\<close>
  returns a schedule holding that grid, and \<^verbatim>\<open>is_on_at\<close> then returns 0.5.
\<close>

theorem from_raw_keeps_fractions:
  "from_raw sample_tzdb (RawArray half_grid) ''UTC''
     = Inr \<lparr>schedule = half_grid, timezone = Some ''UTC'', pytz = Some (\<lambda>instant. 0),
            is_working_day_fun = None\<rparr>
   \<and> is_on_at \<lparr>schedule = half_grid, timezone = Some ''UTC'', pytz = Some (\<lambda>instant. 0),
               is_working_day_fun = None\<rparr>
        (PyDatetime (monday_utc 6 0 0)) = Inr (FloatScalar (1 / 2))"
proof
  have z: "sample_tzdb ''UTC'' = Some (\<lambda>instant. 0)" by (simp add: sample_tzdb_def)
  have sh: "np_shape half_grid = [7, 24, 60]" by (simp add: half_grid_def)
  have vals: "list_all (\<lambda>x. 0 \<le> x \<and> x \<le> 1) (np_values half_grid)"
    by (simp add: half_grid_def list_all_iff)
  show "from_raw sample_tzdb (RawArray half_grid) ''UTC''
     = Inr \<lparr>schedule = half_grid, timezone = Some ''UTC'', pytz = Some (\<lambda>instant. 0),
            is_working_day_fun = None\<rparr>"
    using z sh vals by (rule from_raw_array)
  let ?w = "\<lparr>schedule = half_grid, timezone = Some ''UTC'', pytz = Some (\<lambda>instant. 0),
             is_working_day_fun = None\<rparr>"
  have "valid_grid (schedule ?w)" by (simp add: half_grid_def valid_ndarray_def)
  moreover have "is_working_day_fun ?w = None" by simp
  moreover have "valid_datetime (monday_utc 6 0 0)"
    by (simp add: valid_datetime_def monday_utc_def)
  ultimately have "is_on_at ?w (PyDatetime (monday_utc 6 0 0))
      = Inr (item_at (schedule ?w)
          ((nat (weekday (monday_utc 6 0 0)) * 24 + hour (monday_utc 6 0 0)) * 60
            + minute (monday_utc 6 0 0)))"
    by (rule is_on_at_item)
  then show "is_on_at ?w (PyDatetime (monday_utc 6 0 0)) = Inr (FloatScalar (1 / 2))"
    by (simp add: weekday_monday_utc) (simp add: half_grid_def monday_utc_def)
qed

text \<open>
  C10. A day schedule whose only slot starts at \<open>(5, 99)\<close>, minute 399, and ends at
  \<open>(6, 0)\<close>, minute 360, is malformed, but \<^verbatim>\<open>to_vector\<close> does not raise on it. On
  the schedule that is always on, \<^verbatim>\<open>monday\<close> returns normally and the Monday is
  all off; on an empty schedule, \<^verbatim>\<open>monday\<close> with a slot ending at \<open>(23, 70)\<close>
  returns normally and the Monday is all on.
\<close>

theorem monday_accepts_malformed_spec:
  "always sample_tzdb
     = Inr \<lparr>schedule = BoolArray (np_ones [7, 24, 60]), timezone = Some ''UTC'',
            pytz = Some (\<lambda>instant. 0), is_working_day_fun = None\<rparr>
   \<and> monday \<lparr>schedule = BoolArray (np_ones [7, 24, 60]), timezone = Some ''UTC'',
             pytz = Some (\<lambda>instant. 0), is_working_day_fun = None\<rparr>
        (Single (5, 99) (6, 0))
     = (\<lparr>schedule = BoolArray \<lparr>shape = [7, 24, 60],
                                 cells = replicate 1440 False @ replicate 8640 True\<rparr>,
         timezone = Some ''UTC'', pytz = Some (\<lambda>instant. 0), is_working_day_fun = None\<rparr>,
        None)
   \<and> monday init (Single (0, 0) (23, 70))
     = (init\<lparr>schedule := BoolArray \<lparr>shape = [7, 24, 60],
                                     cells = replicate 1440 True @ replicate 8640 False\<rparr>\<rparr>,
        None)"
proof (intro conjI)
  have z: "sample_tzdb ''UTC'' = Some (\<lambda>instant. 0)" by (simp add: sample_tzdb_def)
  let ?A = "\<lparr>schedule = BoolArray (np_ones [7, 24, 60]), timezone = Some ''UTC'',
             pytz = Some (\<lambda>instant. 0), is_working_day_fun = None\<rparr>"
  have "from_raw sample_tzdb (RawArray (BoolArray (np_ones [7, 24, 60]))) ''UTC'' = Inr ?A"
    using z by (rule from_raw_bool_array) (simp add: np_ones_def)
  then show "always sample_tzdb = Inr ?A"
    using z by (simp add: always_def for_timezone_known returning_def)
  have v2: "to_vector (Single (5, 99) (6, 0)) = Inr (replicate 1440 False)"
    using fill_backwards by (simp add: to_vector_def define_slot_def)
  have ones: "valid_ndarray (np_ones [7, 24, 60])" by (simp add: valid_ndarray_def np_ones_def)
  have z7: "(0::nat) < 7" by simp
  have sa: "schedule ?A = BoolArray (np_ones [7, 24, 60])" by simp
  from set_day_schedule_cases[OF sa ones z7, of "Single (5, 99) (6, 0)"] v2
  have "set_day_schedule ?A (int 0) (Single (5, 99) (6, 0))
        = (?A\<lparr>schedule := BoolArray ((np_ones [7, 24, 60])\<lparr>cells :=
               take (0 * 1440) (cells (np_ones [7, 24, 60])) @ replicate 1440 False
               @ drop (Suc 0 * 1440) (cells (np_ones [7, 24, 60]))\<rparr>)\<rparr>, None)"
    by simp
  then show "monday ?A (Single (5, 99) (6, 0))
     = (\<lparr>schedule = BoolArray \<lparr>shape = [7, 24, 60],
                                 cells = replicate 1440 False @ replicate 8640 True\<rparr>,
         timezone = Some ''UTC'', pytz = Some (\<lambda>instant. 0), is_working_day_fun = None\<rparr>,
        None)"
    by (simp add: monday_def np_ones_def)
  have v1: "to_vector (Single (0, 0) (23, 70)) = Inr (replicate 1440 True)"
    using fill_past_end by (simp add: to_vector_def define_slot_def)
  have si: "schedule init = BoolArray (np_zeros [7, 24, 60])" by (simp add: init_def)
  from set_day_schedule_cases[OF si valid_ndarray_zeros z7, of "Single (0, 0) (23, 70)"] v1
  have "set_day_schedule init (int 0) (Single (0, 0) (23, 70))
        = (init\<lparr>schedule := BoolArray ((np_zeros [7, 24, 60])\<lparr>cells :=
               take (0 * 1440) (cells (np_zeros [7, 24, 60])) @ replicate 1440 True
               @ drop (Suc 0 * 1440) (cells (np_zeros [7, 24, 60]))\<rparr>)\<rparr>, None)"
    by simp
  then show "monday init (Single (0, 0) (23, 70))
     = (init\<lparr>schedule := BoolArray \<lparr>shape = [7, 24, 60],
                                     cells = replicate 1440 True @ replicate 8640 False\<rparr>\<rparr>,
        None)"
    by (simp add: monday_def np_zeros_def)
qed

text \<open>
  C1 as stated fails: two overlapping Monday slots, 00:00 to 07:00 and 06:00 to 08:00,
  are accepted and decoded as the one slot 00:00 to 08:00, which is not the schedule as
  written, in the canonical form of the specification or otherwise.
\<close>

theorem round_trip_counterexample:
  "round_trip sample_tzdb overlapping ''UTC'' = Inr [(0, Single (0, 0) (8, 0))]
   \<and> canonical_form overlapping = [(0, Multi [((0, 0), (7, 0)), ((6, 0), (8, 0))])]"
proof -
  have o: "ordered_day (Single (0, 0) (8, 0))"
    by (simp add: clock_time_def minute_index_def)
  from decode_ordered_day[OF o] obtain v where
    v1: "to_vector (Single (0, 0) (8, 0)) = Inr v" and any: "list_ex (\<lambda>b. b) v"
    and dec: "decode_day v = Some (Single (0, 0) (8, 0))"
    and full: "list_all (\<lambda>b. b) v \<longrightarrow> unwrap (Single (0, 0) (8, 0)) = Single (0, 0) (24, 0)"
    by auto
  have notall: "\<not> list_all (\<lambda>b. b) v" using full by auto
  have v2: "to_vector (Multi [((0, 0), (7, 0)), ((6, 0), (8, 0))]) = Inr v"
    using overlapping_vector v1 by simp
  have lv: "length v = 1440" using v1 by (rule to_vector_length)
  let ?g = "\<lparr>shape = [7, 24, 60], cells = v @ replicate 8640 False\<rparr>"
  have tm: "to_matrix overlapping = Inr ?g"
    using v2 by (simp add: to_matrix_def overlapping_def setitem_def np_zeros_def
        axis_index_def reshape_24_60_def)
  have z: "sample_tzdb ''UTC'' = Some (\<lambda>instant. 0)" by (simp add: sample_tzdb_def)
  have ne: "overlapping \<noteq> []" by (simp add: overlapping_def)
  have acc: "from_raw sample_tzdb (RawDict overlapping) ''UTC''
      = Inr \<lparr>schedule = BoolArray ?g, timezone = Some ''UTC'', pytz = Some (\<lambda>instant. 0),
             is_working_day_fun = None\<rparr>"
    using z ne tm by (rule from_raw_dict) simp
  have vg: "valid_ndarray ?g" using lv by (simp add: valid_ndarray_def)
  have d0: "day_vector ?g 0 = v" using lv by (simp add: day_vector_def)
  have dz: "day_vector ?g d = replicate 1440 False" if "0 < d" "d < 7" for d
  proof -
    have "distinct (map fst overlapping)" by (simp add: overlapping_def)
    from to_matrix_day(2)[OF this tm that(2)] that(1) show ?thesis
      by (simp add: overlapping_def)
  qed
  have na: "\<not> np_all bool_dtype ?g" using notall by (simp add: np_all_def)
  have an: "np_any bool_dtype ?g" using any by (simp add: np_any_def)
  have days: "list_all (\<lambda>d. d < 7) [0..<7]" by (simp add: list_all_iff)
  let ?dec = "\<lambda>d. case decode_day (day_vector ?g d) of None \<Rightarrow> None | Some s \<Rightarrow> Some (int d, s)"
  have fd: "format_days bool_dtype ?g [0..<7] = Inr (List.map_filter ?dec [0..<7])"
    using vg days by (rule format_days_eq)
  have mf: "List.map_filter ?dec [0..<7] = [(0, Single (0, 0) (8, 0))]"
    unfolding upt_0_7 using d0 dec dz decode_day_zeros by (simp add: List.map_filter_simps)
  have "format_grid bool_dtype ?g = Inr [(0, Single (0, 0) (8, 0))]"
    unfolding format_grid_def using na an fd mf by (simp only: if_False if_True simp_thms)
  then have 1: "round_trip sample_tzdb overlapping ''UTC'' = Inr [(0, Single (0, 0) (8, 0))]"
    using acc by (simp add: round_trip_def format_schedule_def)
  have 2: "canonical_form overlapping = [(0, Multi [((0, 0), (7, 0)), ((6, 0), (8, 0))])]"
    using vector_of_eq[OF v2] any notall
    by (simp add: canonical_form_def canonical_day_def overlapping_def)
  from 1 2 show ?thesis ..
qed

text \<open>
  C1, amended. For every compact schedule \<open>S\<close> that \<^verbatim>\<open>from_raw\<close> accepts (a dict, so
  each day is a key once), the grid is one of bools, and decoding it returns a dict
  \<open>R\<close> in which a day is absent exactly when its vector is all false, a day that is
  entirely true is \<^verbatim>\<open>((0, 0), (24, 0))\<close>, and no day is a tuple of one slot. When
  moreover every day of \<open>S\<close> lists clock times in increasing order, each slot starting
  before it ends and at least a minute after the one before ended, \<open>R\<close> is \<open>S\<close> in
  canonical form, which is then \<open>S\<close> with its one-slot tuples unwrapped.
\<close>

theorem round_trip_canonical:
  assumes "from_raw db (RawDict S) tz = Inr w" and "distinct (map fst S)"
  shows "\<exists>R g. schedule w = BoolArray g
     \<and> round_trip db S tz = Inr R \<and> format_schedule w = Inr R
     \<and> (\<forall>d<7. (map_of R (int d) = None) = (\<not> list_ex (\<lambda>b. b) (day_vector g d)))
     \<and> (\<forall>d<7. list_all (\<lambda>b. b) (day_vector g d)
              \<longrightarrow> map_of R (int d) = Some (Single (0, 0) (24, 0)))
     \<and> (\<forall>k x. map_of R k \<noteq> Some (Multi [x]))
     \<and> (list_all (\<lambda>(d, s). ordered_day s) S
          \<longrightarrow> map_of R = map_of (canonical_form S)
              \<and> canonical_form S = map (\<lambda>(d, s). (d, unwrap s)) S)"
proof -
  from round_trip_general[OF assms] obtain R g where
    g: "schedule w = BoolArray g"
    and R: "format_schedule w = Inr R"
    and m: "\<forall>k. map_of R k
           = (if 0 \<le> k \<and> k < 7 then decode_day (day_vector g (nat k)) else None)"
    and vg: "valid_ndarray g" by blast
  have len: "length (day_vector g d) = 1440" if "d < 7" for d
    using vg that by (simp add: length_day_vector valid_ndarray_def)
  have md: "map_of R (int d) = decode_day (day_vector g d)" if "d < 7" for d
    using m that by simp
  have 1: "round_trip db S tz = Inr R" using assms(1) R by (simp add: round_trip_def)
  have 2: "\<forall>d<7. (map_of R (int d) = None) = (\<not> list_ex (\<lambda>b. b) (day_vector g d))"
    using md decode_day_cases(1)[OF len] by simp
  have 3: "\<forall>d<7. list_all (\<lambda>b. b) (day_vector g d)
              \<longrightarrow> map_of R (int d) = Some (Single (0, 0) (24, 0))"
    using md decode_day_cases(2)[OF len] by simp
  have 4: "map_of R k \<noteq> Some (Multi [x])" for k x
  proof (cases "0 \<le> k \<and> k < 7")
    case True
    then have "nat k < 7" by linarith
    from decode_day_cases(3)[OF len[OF this]] m True show ?thesis by simp
  next
    case False
    then show ?thesis using m by auto
  qed
  have 5: "map_of R = map_of (canonical_form S)
           \<and> canonical_form S = map (\<lambda>(d, s). (d, unwrap s)) S"
    if "list_all (\<lambda>(d, s). ordered_day s) S"
    using round_trip_ordered[OF assms that R] canonical_form_ordered[OF that] by simp
  from g 1 R 2 3 4 5 show ?thesis by blast
qed

theorem round_trip_canonical_witness:
  "\<exists>w R. from_raw sample_tzdb (RawDict night_and_weekend) ''UTC'' = Inr w
     \<and> round_trip sample_tzdb night_and_weekend ''UTC'' = Inr R
     \<and> map_of R = map_of night_and_weekend"
proof -
  have o: "list_all (\<lambda>(d, s). 0 \<le> d \<and> d < 7 \<and> ordered_day s) night_and_weekend"
    by (simp add: night_and_weekend_def clock_time_def minute_index_def)
  then have o': "list_all (\<lambda>(d, s). ordered_day s) night_and_weekend"
    by (simp add: night_and_weekend_def)
  have ne: "night_and_weekend \<noteq> []" by (simp add: night_and_weekend_def)
  have z: "sample_tzdb ''UTC'' = Some (\<lambda>instant. 0)" by (simp add: sample_tzdb_def)
  have "\<exists>w. from_raw sample_tzdb (RawDict night_and_weekend) ''UTC'' = Inr w"
    using ne o z by (rule from_raw_ordered)
  then obtain w where
    w: "from_raw sample_tzdb (RawDict night_and_weekend) ''UTC'' = Inr w" by blast
  have d: "distinct (map fst night_and_weekend)" by (simp add: night_and_weekend_def)
  have same: "map (\<lambda>(d, s). (d, unwrap s)) night_and_weekend = night_and_weekend"
    by (simp add: night_and_weekend_def)
  from round_trip_canonical[OF w d] obtain R where
    "round_trip sample_tzdb night_and_weekend ''UTC'' = Inr R"
    "list_all (\<lambda>(d, s). ordered_day s) night_and_weekend
          \<longrightarrow> map_of R = map_of (canonical_form night_and_weekend)
              \<and> canonical_form night_and_weekend
                = map (\<lambda>(d, s). (d, unwrap s)) night_and_weekend"
    by blast
  with o' same w have "from_raw sample_tzdb (RawDict night_and_weekend) ''UTC'' = Inr w
     \<and> round_trip sample_tzdb night_and_weekend ''UTC'' = Inr R
     \<and> map_of R = map_of night_and_weekend" by simp
  then show ?thesis by blast
qed

text \<open>
  C8. The listed inputs are rejected, but not every malformed input is: an end of
  \<open>(23, 70)\<close>, which is 24:10 and minute 1450 of a day of 1440, passes the check
  \<open>(0, 0) \<le> t \<le> (24, 0)\<close> on tuples and turns the whole Monday on; a slot from
  \<open>(5, 99)\<close> to \<open>(6, 0)\<close>, whose start is minute 399 and whose end is minute 360,
  passes the check \<open>start < end\<close> on tuples and sets no cell.
\<close>

theorem from_raw_accepts_malformed_times:
  "from_raw sample_tzdb (RawDict [(0, Single (0, 0) (23, 70))]) ''UTC''
     = Inr \<lparr>schedule = BoolArray \<lparr>shape = [7, 24, 60],
                         cells = replicate 1440 True @ replicate 8640 False\<rparr>,
            timezone = Some ''UTC'', pytz = Some (\<lambda>instant. 0), is_working_day_fun = None\<rparr>
   \<and> from_raw sample_tzdb (RawDict [(0, Single (5, 99) (6, 0))]) ''UTC''
     = Inr \<lparr>schedule = BoolArray (np_zeros [7, 24, 60]),
            timezone = Some ''UTC'', pytz = Some (\<lambda>instant. 0), is_working_day_fun = None\<rparr>"
proof
  have z: "sample_tzdb ''UTC'' = Some (\<lambda>instant. 0)" by (simp add: sample_tzdb_def)
  have v1: "to_vector (Single (0, 0) (23, 70)) = Inr (replicate 1440 True)"
    using fill_past_end by (simp add: to_vector_def define_slot_def)
  have m1: "to_matrix [(0, Single (0, 0) (23, 70))]
            = Inr \<lparr>shape = [7, 24, 60], cells = replicate 1440 True @ replicate 8640 False\<rparr>"
    using v1 by (simp add: to_matrix_def setitem_def np_zeros_def axis_index_def reshape_24_60_def)
  show "from_raw sample_tzdb (RawDict [(0, Single (0, 0) (23, 70))]) ''UTC''
     = Inr \<lparr>schedule = BoolArray \<lparr>shape = [7, 24, 60],
                         cells = replicate 1440 True @ replicate 8640 False\<rparr>,
            timezone = Some ''UTC'', pytz = Some (\<lambda>instant. 0), is_working_day_fun = None\<rparr>"
    using z _ m1 by (rule from_raw_dict) simp_all
  have v2: "to_vector (Single (5, 99) (6, 0)) = Inr (replicate 1440 False)"
    using fill_backwards by (simp add: to_vector_def define_slot_def)
  have "replicate 1440 False @ replicate 8640 False = replicate (1440 + 8640) False"
    by (simp only: replicate_add)
  then have m2: "to_matrix [(0, Single (5, 99) (6, 0))] = Inr (np_zeros [7, 24, 60])"
    using v2 by (simp add: to_matrix_def setitem_def np_zeros_def axis_index_def reshape_24_60_def)
  show "from_raw sample_tzdb (RawDict [(0, Single (5, 99) (6, 0))]) ''UTC''
     = Inr \<lparr>schedule = BoolArray (np_zeros [7, 24, 60]),
            timezone = Some ''UTC'', pytz = Some (\<lambda>instant. 0), is_working_day_fun = None\<rparr>"
    using z _ m2 by (rule from_raw_dict) (simp_all add: np_zeros_def)
qed

end
